theory Spec2Isabelle
  imports Main
begin

section \<open>Python values and exceptions\<close>

text \<open>
  Exceptions of the Python run time that the calculation base class can let escape.
  \<open>OSError\<close> carries its errno: \<open>NotADirectoryError\<close> is \<open>OSError ENOTDIR\<close>,
  \<open>FileNotFoundError\<close> is \<open>OSError ENOENT\<close>, \<open>FileExistsError\<close> is \<open>OSError EEXIST\<close>,
  an input/output failure or a timed out socket is \<open>OSError EIO\<close> or \<open>OSError ETIMEDOUT\<close>.
  \<open>OtherError\<close> stands for any exception class outside the \<open>OSError\<close> hierarchy, by name.
\<close>

datatype errno = ENOENT | ENOTDIR | EEXIST | EIO | ETIMEDOUT

datatype pyerr =
    OSError errno
  | KeyError string
  | IndexError
  | ValueError
  | NotImplementedError
  | RecursionError
  | OtherError string

fun is_OSError :: "pyerr \<Rightarrow> bool" where
  "is_OSError (OSError _) = True"
| "is_OSError _ = False"

datatype pyval = PyInt int | PyStr string | PyNone

type_synonym pydict = "string \<rightharpoonup> pyval"

subsection \<open>Rendering a value as \<open>str.format\<close> does\<close>

definition digit_char :: "nat \<Rightarrow> char" where
  "digit_char n = ''0123456789'' ! n"

function str_nat :: "nat \<Rightarrow> string" where
  "str_nat n = (if n < 10 then [digit_char n] else str_nat (n div 10) @ [digit_char (n mod 10)])"
  by pat_completeness auto
termination
  by (relation "measure id") auto

declare str_nat.simps [simp del]

definition str_int :: "int \<Rightarrow> string" where
  "str_int i = (if i < 0 then CHR ''-'' # str_nat (nat (- i)) else str_nat (nat i))"

fun py_str :: "pyval \<Rightarrow> string" where
  "py_str (PyInt i) = str_int i"
| "py_str (PyStr s) = s"
| "py_str PyNone = ''None''"

subsection \<open>Format strings\<close>

text \<open>
  What \<open>str.format\<close> meets in a format string from left to right: a character of
  literal text, a replacement field, or the place where the string is malformed. A
  replacement field is the first part of its field name, the rest of the field name
  (attribute and index accesses), the conversion and the format specification.
\<close>

datatype item = Text char | Replacement string string "char option" string | Malformed

text \<open>
  The field name ends at \<open>}\<close>, \<open>:\<close> or \<open>!\<close>. Between brackets no character is
  interpreted; an opening brace in the field name and the end of the string are
  refused. The result is the name, the character that ended it and what follows.
\<close>

fun scan_field_name :: "bool \<Rightarrow> string \<Rightarrow> (string \<times> char \<times> string) option" where
  "scan_field_name in_bracket [] = None"
| "scan_field_name True (c # cs) =
     (case scan_field_name (c \<noteq> CHR '']'') cs of
        None \<Rightarrow> None
      | Some (name, t, rest) \<Rightarrow> Some (c # name, t, rest))"
| "scan_field_name False (c # cs) =
     (if c = CHR ''{'' then None
      else if c = CHR ''}'' \<or> c = CHR '':'' \<or> c = CHR ''!'' then Some ([], c, cs)
      else (case scan_field_name (c = CHR ''['') cs of
              None \<Rightarrow> None
            | Some (name, t, rest) \<Rightarrow> Some (c # name, t, rest)))"

text \<open>
  The format specification runs to the closing brace that matches the opening brace of
  the field; \<open>depth\<close> counts the braces opened inside the specification.
\<close>

fun scan_format_spec :: "nat \<Rightarrow> string \<Rightarrow> (string \<times> string) option" where
  "scan_format_spec depth [] = None"
| "scan_format_spec depth (c # cs) =
     (if c = CHR ''}'' \<and> depth = 0 then Some ([], cs)
      else (case scan_format_spec
                   (if c = CHR ''{'' then Suc depth
                    else if c = CHR ''}'' then depth - 1 else depth) cs of
              None \<Rightarrow> None
            | Some (spec, rest) \<Rightarrow> Some (c # spec, rest)))"

text \<open>
  A replacement field, read from behind its opening brace. The first part of the field
  name reaches to the first \<open>.\<close> or \<open>[\<close>. After \<open>!\<close> come one conversion character
  and then \<open>}\<close> or \<open>:\<close>.
\<close>

definition parse_field :: "string \<Rightarrow> (item \<times> string) option" where
  "parse_field s =
     (case scan_field_name False s of
        None \<Rightarrow> None
      | Some (name, t, rest) \<Rightarrow>
          (let first = takeWhile (\<lambda>c. c \<noteq> CHR ''.'' \<and> c \<noteq> CHR ''['') name;
               accesses = dropWhile (\<lambda>c. c \<noteq> CHR ''.'' \<and> c \<noteq> CHR ''['') name
           in if t = CHR ''}'' then Some (Replacement first accesses None [], rest)
              else if t = CHR '':'' then
                (case scan_format_spec 0 rest of
                   None \<Rightarrow> None
                 | Some (spec, rest') \<Rightarrow> Some (Replacement first accesses None spec, rest'))
              else
                (case rest of
                   [] \<Rightarrow> None
                 | conversion # rest1 \<Rightarrow>
                     (case rest1 of
                        [] \<Rightarrow> None
                      | c # rest2 \<Rightarrow>
                          if c = CHR ''}''
                          then Some (Replacement first accesses (Some conversion) [], rest2)
                          else if c = CHR '':'' then
                            (case scan_format_spec 0 rest2 of
                               None \<Rightarrow> None
                             | Some (spec, rest') \<Rightarrow>
                                 Some (Replacement first accesses (Some conversion) spec,
                                       rest'))
                          else None))))"

text \<open>
  The items of a format string. A doubled brace is one literal brace; a single closing
  brace, an opening brace at the end and a field that does not parse end the items with
  \<open>Malformed\<close>.
\<close>

function scan :: "string \<Rightarrow> item list" where
  "scan [] = []"
| "scan (c # cs) =
     (if c = CHR ''{'' then
        (case cs of
           [] \<Rightarrow> [Malformed]
         | c' # cs' \<Rightarrow>
             if c' = CHR ''{'' then Text c # scan cs'
             else (case parse_field cs of
                     None \<Rightarrow> [Malformed]
                   | Some (field, rest) \<Rightarrow> field # scan rest))
      else if c = CHR ''}'' then
        (case cs of
           [] \<Rightarrow> [Malformed]
         | c' # cs' \<Rightarrow> if c' = CHR ''}'' then Text c # scan cs' else [Malformed])
      else Text c # scan cs)"
  by pat_completeness auto
termination
proof -
  have name: "length r < length s"
    if "scan_field_name b s = Some (n, t, r)" for b s n t r
    using that
    by (induction b s arbitrary: n rule: scan_field_name.induct)
       (auto split: option.splits if_splits)
  have spec: "length r < length s"
    if "scan_format_spec k s = Some (f, r)" for k s f r
    using that
    by (induction k s arbitrary: f rule: scan_format_spec.induct)
       (auto split: option.splits if_splits)
  have field: "length r < length s" if "parse_field s = Some (f, r)" for s f r
    using that unfolding parse_field_def
    by (auto simp: Let_def split: option.splits if_splits list.splits
          dest!: name spec)
  show ?thesis
    by (relation "measure length") (auto dest: field)
qed

text \<open>
  The first part of a field name that consists of decimal digits is an index into the
  positional arguments; more digits than \<open>PY_SSIZE_T_MAX\<close> holds (here that of a 64
  bit build) are refused.
\<close>

definition PY_SSIZE_T_MAX :: int where
  "PY_SSIZE_T_MAX = 2 ^ 63 - 1"

definition digit_value :: "char \<Rightarrow> int option" where
  "digit_value c =
     (let n = (of_char c :: int) in if 48 \<le> n \<and> n \<le> 57 then Some (n - 48) else None)"

fun accumulate :: "int \<Rightarrow> string \<Rightarrow> pyerr + int option" where
  "accumulate acc [] = Inr (Some acc)"
| "accumulate acc (c # cs) =
     (case digit_value c of
        None \<Rightarrow> Inr None
      | Some digitval \<Rightarrow>
          if acc > (PY_SSIZE_T_MAX - digitval) div 10 then Inl ValueError
          else accumulate (acc * 10 + digitval) cs)"

definition get_integer :: "string \<Rightarrow> pyerr + int option" where
  "get_integer s = (if s = [] then Inr None else accumulate 0 s)"

text \<open>
  The object of a field. \<open>arg.format(**mpi_arg_dict)\<close> passes keyword arguments only:
  an empty first part (automatic numbering) and an index find no positional argument and
  raise \<open>IndexError\<close>, a name that is no key raises \<open>KeyError\<close> with the name.
\<close>

definition get_value :: "string \<Rightarrow> pydict \<Rightarrow> pyerr + pyval" where
  "get_value first kwargs =
     (case get_integer first of
        Inl e \<Rightarrow> Inl e
      | Inr (Some index) \<Rightarrow> Inl IndexError
      | Inr None \<Rightarrow>
          if first = [] then Inl IndexError
          else (case kwargs first of None \<Rightarrow> Inl (KeyError first) | Some v \<Rightarrow> Inr v))"

text \<open>
  What Python does with the object after the lookup, that is attribute and index
  accesses, conversion and format specification (whose nested fields read the keyword
  arguments again), belongs to the interpreter and is a parameter of the model. A field
  with none of the three is rendered as \<open>str\<close> renders the object.
\<close>

type_synonym field_formatter =
  "pydict \<Rightarrow> pyval \<Rightarrow> string \<Rightarrow> char option \<Rightarrow> string \<Rightarrow> pyerr + string"

fun render :: "field_formatter \<Rightarrow> item list \<Rightarrow> pydict \<Rightarrow> pyerr + string" where
  "render py [] kwargs = Inr []"
| "render py (Text c # more) kwargs =
     (case render py more kwargs of Inl e \<Rightarrow> Inl e | Inr r \<Rightarrow> Inr (c # r))"
| "render py (Malformed # more) kwargs = Inl ValueError"
| "render py (Replacement first accesses conversion spec # more) kwargs =
     (case get_value first kwargs of
        Inl e \<Rightarrow> Inl e
      | Inr v \<Rightarrow>
          (case (if accesses = [] \<and> conversion = None \<and> spec = [] then Inr (py_str v)
                 else py kwargs v accesses conversion spec) of
             Inl e \<Rightarrow> Inl e
           | Inr s \<Rightarrow>
               (case render py more kwargs of Inl e \<Rightarrow> Inl e | Inr r \<Rightarrow> Inr (s @ r))))"

definition format :: "field_formatter \<Rightarrow> string \<Rightarrow> pydict \<Rightarrow> pyerr + string" where
  "format py s kwargs = render py (scan s) kwargs"

text \<open>The list comprehension \<open>[arg.format(**mpi_arg_dict) for arg in mpirun_command]\<close>.\<close>

fun format_each :: "field_formatter \<Rightarrow> string list \<Rightarrow> pydict \<Rightarrow> pyerr + string list" where
  "format_each py [] d = Inr []"
| "format_each py (t # ts) d =
     (case format py t d of
        Inl e \<Rightarrow> Inl e
      | Inr s \<Rightarrow> (case format_each py ts d of Inl e \<Rightarrow> Inl e | Inr ss \<Rightarrow> Inr (s # ss)))"

text \<open>
  The first parts of the field names of a format string, in its order, and the format
  strings that hold nothing but literal text and fields of a bare name.
\<close>

fun first_parts :: "item list \<Rightarrow> string list" where
  "first_parts [] = []"
| "first_parts (Replacement first accesses conversion spec # more) =
     first # first_parts more"
| "first_parts (item # more) = first_parts more"

definition fields_of :: "string \<Rightarrow> string list" where
  "fields_of s = first_parts (scan s)"

fun bare_items :: "item list \<Rightarrow> bool" where
  "bare_items [] = True"
| "bare_items (Text c # more) = bare_items more"
| "bare_items (Malformed # more) = False"
| "bare_items (Replacement first accesses conversion spec # more) =
     (accesses = [] \<and> conversion = None \<and> spec = [] \<and> bare_items more)"

definition bare :: "string \<Rightarrow> bool" where
  "bare s = bare_items (scan s)"

text \<open>A field whose object the keyword arguments do not supply, and the error it raises.\<close>

definition absent :: "pydict \<Rightarrow> string \<Rightarrow> bool" where
  "absent kwargs first = isl (get_value first kwargs)"

definition lookup_error :: "string \<Rightarrow> pyerr" where
  "lookup_error first =
     (case get_integer first of
        Inl e \<Rightarrow> e
      | Inr (Some index) \<Rightarrow> IndexError
      | Inr None \<Rightarrow> if first = [] then IndexError else KeyError first)"

section \<open>The collaborators of the calculation\<close>

text \<open>
  The job resource object built by the scheduler: its items and the value of
  \<open>get_tot_num_mpiprocs()\<close>. The scheduler itself is outside this repository and enters
  as the function \<open>create_job_resource\<close>, which validates the keyword arguments and may
  raise.
\<close>

record job_resource =
  items :: "(string \<times> pyval) list"
  get_tot_num_mpiprocs :: pyval

record computer =
  get_default_mpiprocs_per_machine :: "int option"
  create_job_resource :: "pydict \<Rightarrow> pyerr + job_resource"
  get_mpirun_command :: "string list"

record code =
  uuid :: string
  get_execname :: string
  computer :: computer

record options =
  withmpi_option :: bool
  resources :: pydict
  mpirun_extra_params :: "string list"
  submit_script_filename :: "string option"

text \<open>
  A remote folder node: \<open>listdir\<close> returns the names found at a relative path or raises,
  \<open>get_remote_path\<close> is the folder's path on the remote computer.
\<close>

record remote_data =
  listdir :: "string \<Rightarrow> pyerr + string list"
  get_remote_path :: string
  computer_uuid :: string

record inputs =
  calc_uuid :: string
  code :: code
  custodian_code :: "code option"
  options :: options
  restart_folder :: "remote_data option"
  contcar_to_poscar :: "bool option"

text \<open>
  The constants of \<open>PluginDefaults\<close> and \<open>VaspDefaults\<close>, which live in a module that
  is not part of the translated source, are parameters of the model.
\<close>

record defaults =
  STDERR_FNAME :: string
  STDOUT_FNAME :: string
  CSTDN_SPEC_FNAME :: string
  FNAMES_contcar :: string
  FNAMES_poscar :: string

text \<open>A field of \<open>CodeInfo\<close> that was never assigned reads as \<open>None\<close>.\<close>

record CodeInfo =
  code_uuid :: "string option"
  cmdline_params :: "string list option"
  stdout_name :: "string option"
  stderr_name :: "string option"
  withmpi :: "bool option"

definition new_CodeInfo :: CodeInfo where
  "new_CodeInfo = \<lparr>code_uuid = None, cmdline_params = None, stdout_name = None,
     stderr_name = None, withmpi = None\<rparr>"

datatype CodeRunMode = SERIAL | PARALLEL

type_synonym copy_entry = "string \<times> string \<times> string"

record CalcInfo =
  calcinfo_uuid :: "string option"
  codes_info :: "CodeInfo list"
  local_copy_list :: "copy_entry list"
  remote_copy_list :: "copy_entry list"
  remote_symlink_list :: "copy_entry list"
  retrieve_temporary_list :: "string list"
  codes_run_mode :: "CodeRunMode option"

section \<open>The launcher arguments and the run line\<close>

text \<open>
  The keyword arguments handed to \<open>scheduler.create_job_resource\<close>: the user's
  resources, with the computer's default stored under \<open>default_mpiprocs_per_machine\<close>
  when the computer declares one.
\<close>

definition job_resource_kwargs :: "computer \<Rightarrow> pydict \<Rightarrow> pydict" where
  "job_resource_kwargs cmptr res =
     (case get_default_mpiprocs_per_machine cmptr of
        None \<Rightarrow> res
      | Some default_cpus_machine \<Rightarrow>
          res(''default_mpiprocs_per_machine'' \<mapsto> PyInt default_cpus_machine))"

definition mpi_arg_dict :: "job_resource \<Rightarrow> pydict" where
  "mpi_arg_dict jr =
     foldl (\<lambda>d (key, val). d(key \<mapsto> val))
       [''tot_num_mpiprocs'' \<mapsto> get_tot_num_mpiprocs jr] (items jr)"

definition vasp_calc_mpi_args ::
  "field_formatter \<Rightarrow> inputs \<Rightarrow> pyerr + (string list \<times> string list)" where
  "vasp_calc_mpi_args py inp =
     (let cmptr = computer (code inp);
          res = job_resource_kwargs cmptr (resources (options inp))
      in case create_job_resource cmptr res of
           Inl e \<Rightarrow> Inl e
         | Inr jr \<Rightarrow>
             (case format_each py (get_mpirun_command cmptr) (mpi_arg_dict jr) of
                Inl e \<Rightarrow> Inl e
              | Inr mpi_base_args \<Rightarrow>
                  Inr (mpi_base_args, mpirun_extra_params (options inp))))"

definition vasp_run_line :: "field_formatter \<Rightarrow> inputs \<Rightarrow> pyerr + string list" where
  "vasp_run_line py inp =
     (let vasp_exec = [get_execname (code inp)]
      in if withmpi_option (options inp)
         then (case vasp_calc_mpi_args py inp of
                 Inl e \<Rightarrow> Inl e
               | Inr (mpicmd, mpiextra) \<Rightarrow> Inr (mpicmd @ mpiextra @ vasp_exec))
         else Inr vasp_exec)"

section \<open>Paths as \<open>pathlib\<close> reads them\<close>

text \<open>\<open>str.split('/')\<close>: \<open>n\<close> separators give \<open>n + 1\<close> pieces, empty ones included.\<close>

fun split_sep :: "string \<Rightarrow> string list" where
  "split_sep [] = [[]]"
| "split_sep (c # cs) =
     (if c = CHR ''/'' then [] # split_sep cs
      else (case split_sep cs of [] \<Rightarrow> [[c]] | p # ps \<Rightarrow> (c # p) # ps))"

text \<open>\<open>'/'.join(parts)\<close>.\<close>

fun join_sep :: "string list \<Rightarrow> string" where
  "join_sep [] = []"
| "join_sep [x] = x"
| "join_sep (x # y # ys) = x @ CHR ''/'' # join_sep (y # ys)"

text \<open>
  A POSIX path object is its root and its parts. The root is \<open>//\<close> for exactly two
  leading slashes, \<open>/\<close> for any other number of them, empty for a relative path. Empty
  pieces and \<open>.\<close> pieces are dropped; \<open>..\<close> pieces stay.
\<close>

type_synonym pure_path = "string \<times> string list"

definition path_root :: "string \<Rightarrow> string" where
  "path_root s =
     (if s \<noteq> [] \<and> hd s = CHR ''/''
      then (if length (takeWhile (\<lambda>c. c = CHR ''/'') s) = 2 then ''//'' else ''/'')
      else [])"

definition path_parts :: "string \<Rightarrow> string list" where
  "path_parts s =
     filter (\<lambda>x. x \<noteq> [] \<and> x \<noteq> ''.'') (split_sep (dropWhile (\<lambda>c. c = CHR ''/'') s))"

definition Path :: "string \<Rightarrow> pure_path" where
  "Path s = (path_root s, path_parts s)"

definition path_str :: "pure_path \<Rightarrow> string" where
  "path_str p = (if fst p = [] \<and> snd p = [] then ''.'' else fst p @ join_sep (snd p))"

text \<open>\<open>Path.absolute()\<close> with the working directory of the process as a parameter.\<close>

definition absolute :: "string \<Rightarrow> pure_path \<Rightarrow> pure_path" where
  "absolute cwd p = (if fst p \<noteq> [] then p else (path_root cwd, path_parts cwd @ snd p))"

text \<open>The operator \<open>/\<close> of two paths.\<close>

definition truediv :: "pure_path \<Rightarrow> pure_path \<Rightarrow> pure_path" where
  "truediv p q = (if fst q \<noteq> [] then q else (fst p, snd p @ snd q))"

section \<open>Traversal of the remote folder\<close>

text \<open>
  An entry of the file list: file name, absolute path on the remote, relative path
  without the file name.
\<close>

type_synonym file_entry = "string \<times> string \<times> string"

text \<open>
  \<open>remote_filelist\<close> recurses once per directory level. The first argument is the
  number of nested calls the interpreter still allows; a call beyond it raises
  \<open>RecursionError\<close>, which is no \<open>OSError\<close> and so passes every handler of the
  traversal. \<open>filelist_loop\<close> is the body of the \<open>for\<close> loop: it carries the variable
  \<open>relpath\<close>, which the handler reassigns, and the list built so far.
\<close>

fun remote_filelist :: "nat \<Rightarrow> string \<Rightarrow> remote_data \<Rightarrow> string \<Rightarrow> pyerr + file_entry list"
and filelist_loop ::
  "nat \<Rightarrow> string \<Rightarrow> remote_data \<Rightarrow> string \<Rightarrow> string list \<Rightarrow> file_entry list
     \<Rightarrow> pyerr + file_entry list"
where
  "remote_filelist 0 cwd rd relpath = Inl RecursionError"
| "remote_filelist (Suc n) cwd rd relpath =
     (case listdir rd relpath of
        Inl e \<Rightarrow> Inl e
      | Inr paths \<Rightarrow> filelist_loop n cwd rd relpath paths [])"
| "filelist_loop n cwd rd relpath [] filelist = Inr filelist"
| "filelist_loop n cwd rd relpath (path # rest) filelist =
     (let subpath = relpath @ ''/'' @ path
      in case remote_filelist n cwd rd subpath of
           Inr files \<Rightarrow> filelist_loop n cwd rd relpath rest (filelist @ files)
         | Inl e \<Rightarrow>
             if is_OSError e
             then (let abspath = get_remote_path rd @ ''/'' @ subpath;
                       abspath' = path_str (absolute cwd (Path abspath));
                       relpath' = path_str (Path relpath)
                   in filelist_loop n cwd rd relpath' rest
                        (filelist @ [(path, abspath', relpath')]))
             else Inl e)"


text \<open>
  The traversal as the specification words it: the relative directory of an entry is
  computed from the directory of that entry alone, and nothing is carried from one
  entry of the loop to the next.
\<close>

fun remote_filelist_pure ::
  "nat \<Rightarrow> string \<Rightarrow> remote_data \<Rightarrow> string \<Rightarrow> pyerr + file_entry list"
and filelist_loop_pure ::
  "nat \<Rightarrow> string \<Rightarrow> remote_data \<Rightarrow> string \<Rightarrow> string list \<Rightarrow> file_entry list
     \<Rightarrow> pyerr + file_entry list"
where
  "remote_filelist_pure 0 cwd rd relpath = Inl RecursionError"
| "remote_filelist_pure (Suc n) cwd rd relpath =
     (case listdir rd relpath of
        Inl e \<Rightarrow> Inl e
      | Inr paths \<Rightarrow> filelist_loop_pure n cwd rd relpath paths [])"
| "filelist_loop_pure n cwd rd relpath [] filelist = Inr filelist"
| "filelist_loop_pure n cwd rd relpath (path # rest) filelist =
     (let subpath = relpath @ ''/'' @ path
      in case remote_filelist_pure n cwd rd subpath of
           Inr files \<Rightarrow> filelist_loop_pure n cwd rd relpath rest (filelist @ files)
         | Inl e \<Rightarrow>
             if is_OSError e
             then filelist_loop_pure n cwd rd relpath rest
                    (filelist @
                      [(path,
                        path_str (absolute cwd (Path (get_remote_path rd @ ''/'' @ subpath))),
                        path_str (Path relpath))])
             else Inl e)"


text \<open>
  A remote folder resolves a relative path component by component, so two relative
  paths with the same parts name the same place.
\<close>

definition relative :: "string \<Rightarrow> bool" where
  "relative s = (s \<noteq> [] \<and> hd s \<noteq> CHR ''/'')"

definition resolves_by_parts :: "remote_data \<Rightarrow> bool" where
  "resolves_by_parts rd =
     (\<forall>p q. relative p \<and> relative q \<and> path_parts p = path_parts q
        \<longrightarrow> listdir rd p = listdir rd q)"


text \<open>
  An entry whose relative directory is in the normal form of \<open>pathlib\<close>, does not
  start with \<open>./\<close>, and whose absolute path is computed from the remote path, that
  directory and the name of the file.
\<close>

definition well_placed :: "string \<Rightarrow> string \<Rightarrow> file_entry \<Rightarrow> bool" where
  "well_placed remote_path cwd entry =
     (case entry of (name, abspath, relpath) \<Rightarrow>
        relative relpath \<and> path_str (Path relpath) = relpath \<and> take 2 relpath \<noteq> ''./''
        \<and> abspath =
            path_str (absolute cwd (Path (remote_path @ ''/'' @ relpath @ ''/'' @ name))))"

text \<open>Two relative paths that name the same place.\<close>

definition same_place :: "string \<Rightarrow> string \<Rightarrow> bool" where
  "same_place q q' = (relative q \<and> relative q' \<and> path_parts q = path_parts q')"

section \<open>The sandbox folder on the local file system\<close>

text \<open>
  The local file system maps the parts of an absolute path to what is found there; the
  empty list is the root directory. \<open>os_stat\<close> walks the path from the root as the
  operating system does. Symbolic links and permissions are left out, and a \<open>..\<close> part
  is a name like any other.
\<close>

datatype kind = RegularFile | Directory

type_synonym local_fs = "string list \<rightharpoonup> kind"

fun stat_from :: "local_fs \<Rightarrow> string list \<Rightarrow> string list \<Rightarrow> errno + kind" where
  "stat_from fs cur [] = (case fs cur of None \<Rightarrow> Inl ENOENT | Some k \<Rightarrow> Inr k)"
| "stat_from fs cur (x # xs) =
     (case fs cur of
        None \<Rightarrow> Inl ENOENT
      | Some RegularFile \<Rightarrow> Inl ENOTDIR
      | Some Directory \<Rightarrow> stat_from fs (cur @ [x]) xs)"

definition os_stat :: "local_fs \<Rightarrow> string list \<Rightarrow> errno + kind" where
  "os_stat fs p = stat_from fs [] p"

text \<open>\<open>Path.exists()\<close> answers \<open>False\<close> where \<open>stat\<close> fails on a missing or non-directory part.\<close>

definition path_exists :: "local_fs \<Rightarrow> string list \<Rightarrow> bool" where
  "path_exists fs p = (case os_stat fs p of Inl e \<Rightarrow> False | Inr k \<Rightarrow> True)"

definition is_dir :: "local_fs \<Rightarrow> string list \<Rightarrow> bool" where
  "is_dir fs p = (os_stat fs p = Inr Directory)"

definition os_mkdir :: "local_fs \<Rightarrow> string list \<Rightarrow> errno + local_fs" where
  "os_mkdir fs p =
     (if p = [] then Inl EEXIST
      else (case os_stat fs (butlast p) of
              Inl e \<Rightarrow> Inl e
            | Inr RegularFile \<Rightarrow> Inl ENOTDIR
            | Inr Directory \<Rightarrow>
                (case fs p of Some k \<Rightarrow> Inl EEXIST | None \<Rightarrow> Inr (fs(p \<mapsto> Directory)))))"

text \<open>
  \<open>Path.mkdir(parents, exist_ok)\<close>: on \<open>FileNotFoundError\<close> the parent is made first,
  with \<open>parents=True, exist_ok=True\<close>, and the directory itself is tried once more with
  \<open>parents=False\<close>; any other \<open>OSError\<close> is raised again unless \<open>exist_ok\<close> holds and
  the path is a directory.
\<close>

function mkdir :: "local_fs \<Rightarrow> string list \<Rightarrow> bool \<Rightarrow> bool \<Rightarrow> errno + local_fs" where
  "mkdir fs p parents exist_ok =
     (case os_mkdir fs p of
        Inr fs' \<Rightarrow> Inr fs'
      | Inl e \<Rightarrow>
          if e = ENOENT
          then (if \<not> parents \<or> p = [] then Inl e
                else (case mkdir fs (butlast p) True True of
                        Inl e' \<Rightarrow> Inl e'
                      | Inr fs' \<Rightarrow> mkdir fs' p False exist_ok))
          else (if \<not> exist_ok \<or> \<not> is_dir fs p then Inl e else Inr fs))"
  by pat_completeness auto
termination
  by (relation "measures [\<lambda>(fs, p, parents, exist_ok). length p,
                          \<lambda>(fs, p, parents, exist_ok). if parents then 1 else 0]") auto

declare mkdir.simps [simp del]


text \<open>
  A file system is a tree: the root is a directory and whatever exists lies in a
  directory. On a path with no regular file every part is a directory or missing.
\<close>

definition well_formed :: "local_fs \<Rightarrow> bool" where
  "well_formed fs =
     (fs [] = Some Directory \<and>
      (\<forall>p. p \<noteq> [] \<and> fs p \<noteq> None \<longrightarrow> fs (butlast p) = Some Directory))"

definition no_file_on_path :: "local_fs \<Rightarrow> string list \<Rightarrow> bool" where
  "no_file_on_path fs p = (\<forall>i \<le> length p. fs (take i p) \<noteq> Some RegularFile)"

text \<open>One file system extends another by directories only.\<close>

definition only_adds_directories :: "local_fs \<Rightarrow> local_fs \<Rightarrow> bool" where
  "only_adds_directories fs fs' =
     (\<forall>q. fs' q = fs q \<or> (fs q = None \<and> fs' q = Some Directory))"

section \<open>Restarting from a remote folder\<close>

definition restart_files_exclude :: "defaults \<Rightarrow> inputs \<Rightarrow> string option list" where
  "restart_files_exclude dflt inp =
     [submit_script_filename (options inp),
      Some (CSTDN_SPEC_FNAME dflt),
      Some ''job_tmpl.json'',
      Some ''calcinfo.json'']"

text \<open>Truth value of the input \<open>contcar_to_poscar\<close>, a \<open>Bool\<close> node or \<open>None\<close>.\<close>

definition truthy :: "bool option \<Rightarrow> bool" where
  "truthy b = (b = Some True)"

text \<open>
  The body of the loop of \<open>restart_copy_remote\<close> over the entries of the file list.
  \<open>folder\<close> is the absolute path of the sandbox folder; the loop appends to the remote
  copy list of the \<open>CalcInfo\<close> and creates directories on the local file system.
\<close>

fun copy_loop ::
  "defaults \<Rightarrow> string \<Rightarrow> string option list \<Rightarrow> bool option \<Rightarrow> string
     \<Rightarrow> file_entry list \<Rightarrow> CalcInfo \<Rightarrow> local_fs \<Rightarrow> pyerr + (CalcInfo \<times> local_fs)"
where
  "copy_loop dflt remote_comp_uuid exclude_files overwrite_poscar folder [] calcinfo fs =
     Inr (calcinfo, fs)"
| "copy_loop dflt remote_comp_uuid exclude_files overwrite_poscar folder
     ((name, abspath, relpath) # rest) calcinfo fs =
     (if Some name \<in> set exclude_files
      then copy_loop dflt remote_comp_uuid exclude_files overwrite_poscar folder rest calcinfo fs
      else
        (let name' = (if name = FNAMES_contcar dflt \<and> truthy overwrite_poscar
                      then FNAMES_poscar dflt else name);
             file_relpath = relpath @ ''/'' @ name';
             remote_copy_entry = (remote_comp_uuid, abspath, file_relpath);
             calcinfo' = calcinfo\<lparr>remote_copy_list :=
                           remote_copy_list calcinfo @ [remote_copy_entry]\<rparr>;
             file_parent_folder = snd (truediv (Path folder) (Path relpath))
         in if \<not> path_exists fs file_parent_folder
            then (case mkdir fs file_parent_folder True False of
                    Inl e \<Rightarrow> Inl (OSError e)
                  | Inr fs' \<Rightarrow>
                      copy_loop dflt remote_comp_uuid exclude_files overwrite_poscar folder
                        rest calcinfo' fs')
            else copy_loop dflt remote_comp_uuid exclude_files overwrite_poscar folder
                   rest calcinfo' fs))"

text \<open>
  Without a restart folder \<open>remote_data\<close> is \<open>None\<close> and reading its computer raises
  \<open>AttributeError\<close>.
\<close>

definition restart_copy_remote ::
  "nat \<Rightarrow> string \<Rightarrow> defaults \<Rightarrow> inputs \<Rightarrow> string \<Rightarrow> CalcInfo \<Rightarrow> local_fs
     \<Rightarrow> pyerr + (CalcInfo \<times> local_fs)"
where
  "restart_copy_remote depth cwd dflt inp folder calcinfo fs =
     (case restart_folder inp of
        None \<Rightarrow> Inl (OtherError ''AttributeError'')
      | Some remote_data \<Rightarrow>
          (let remote_comp_uuid = computer_uuid remote_data;
               exclude_files = restart_files_exclude dflt inp;
               overwrite_poscar = contcar_to_poscar inp
           in case remote_filelist depth cwd remote_data ''.'' of
                Inl e \<Rightarrow> Inl e
              | Inr files \<Rightarrow>
                  copy_loop dflt remote_comp_uuid exclude_files overwrite_poscar folder
                    files calcinfo fs))"

section \<open>Preparing the submission\<close>

text \<open>
  The two methods that write the inputs are left to the subclasses; each receives the
  sandbox folder and the \<open>CalcInfo\<close> and works on both in place. In the base class they
  raise \<open>NotImplementedError\<close>.
\<close>

type_synonym hook = "string \<Rightarrow> CalcInfo \<Rightarrow> local_fs \<Rightarrow> pyerr + (CalcInfo \<times> local_fs)"

record hooks =
  create_inputs_for_restart_run :: hook
  create_inputs_for_regular_run :: hook

definition base_hooks :: hooks where
  "base_hooks =
     \<lparr>create_inputs_for_restart_run = (\<lambda>folder calcinfo fs. Inl NotImplementedError),
      create_inputs_for_regular_run = (\<lambda>folder calcinfo fs. Inl NotImplementedError)\<rparr>"

definition prepare_for_submission ::
  "defaults \<Rightarrow> hooks \<Rightarrow> inputs \<Rightarrow> string \<Rightarrow> local_fs \<Rightarrow> pyerr + (CalcInfo \<times> local_fs)"
where
  "prepare_for_submission dflt hk inp folder fs =
     (let codeinfo =
            (case custodian_code inp of
               None \<Rightarrow>
                 new_CodeInfo\<lparr>code_uuid := Some (uuid (code inp)),
                              stdout_name := Some (STDOUT_FNAME dflt),
                              stderr_name := Some (STDERR_FNAME dflt)\<rparr>
             | Some custodian \<Rightarrow>
                 new_CodeInfo\<lparr>code_uuid := Some (uuid custodian),
                              cmdline_params := Some [''run'', CSTDN_SPEC_FNAME dflt],
                              withmpi := Some False\<rparr>);
          calcinfo =
            \<lparr>calcinfo_uuid = Some (calc_uuid inp),
             codes_info = [codeinfo],
             local_copy_list = [],
             remote_copy_list = [],
             remote_symlink_list = [],
             retrieve_temporary_list = [],
             codes_run_mode = Some SERIAL\<rparr>
      in case restart_folder inp of
           Some remote_data \<Rightarrow> create_inputs_for_restart_run hk folder calcinfo fs
         | None \<Rightarrow> create_inputs_for_regular_run hk folder calcinfo fs)"

text \<open>
  A subclass hook may fill the copy lists and the folder; the claims about the code
  entries of a plan concern hooks that leave \<open>codes_info\<close> as they found it.
\<close>

definition keeps_codes_info :: "hook \<Rightarrow> bool" where
  "keeps_codes_info h =
     (\<forall>folder calcinfo fs calcinfo' fs'.
        h folder calcinfo fs = Inr (calcinfo', fs')
          \<longrightarrow> codes_info calcinfo' = codes_info calcinfo)"

text \<open>
  The engine that consumes the plan reads an unset \<open>withmpi\<close> of a code entry as the
  \<open>withmpi\<close> option of the calculation.
\<close>

definition effective_withmpi :: "CodeInfo \<Rightarrow> options \<Rightarrow> bool" where
  "effective_withmpi codeinfo opts =
     (case withmpi codeinfo of None \<Rightarrow> withmpi_option opts | Some b \<Rightarrow> b)"

text \<open>The per-node field of a job resource.\<close>

definition per_node_field :: "job_resource \<Rightarrow> pyval option" where
  "per_node_field jr = map_of (items jr) ''num_mpiprocs_per_machine''"

section \<open>Sample inputs\<close>

definition ex_defaults :: defaults where
  "ex_defaults =
     \<lparr>STDERR_FNAME = ''aiida.err'', STDOUT_FNAME = ''aiida.out'',
      CSTDN_SPEC_FNAME = ''cstdn_spec.yaml'',
      FNAMES_contcar = ''CONTCAR'', FNAMES_poscar = ''POSCAR''\<rparr>"

text \<open>
  A scheduler in the style of a node-number job resource: it needs the number of
  machines and resolves the processes per machine from the explicit value or else from
  the default.
\<close>

definition ex_create_job_resource :: "pydict \<Rightarrow> pyerr + job_resource" where
  "ex_create_job_resource kw =
     (case kw ''num_machines'' of
        Some (PyInt m) \<Rightarrow>
          (case (case kw ''num_mpiprocs_per_machine'' of
                   Some v \<Rightarrow> Some v
                 | None \<Rightarrow> kw ''default_mpiprocs_per_machine'') of
             Some (PyInt k) \<Rightarrow>
               Inr \<lparr>items = [(''num_machines'', PyInt m),
                               (''num_mpiprocs_per_machine'', PyInt k)],
                    get_tot_num_mpiprocs = PyInt (m * k)\<rparr>
           | _ \<Rightarrow> Inl (OtherError ''ValueError''))
      | _ \<Rightarrow> Inl (OtherError ''ValueError''))"

definition ex_computer :: computer where
  "ex_computer =
     \<lparr>get_default_mpiprocs_per_machine = Some 4,
      create_job_resource = ex_create_job_resource,
      get_mpirun_command = [''mpirun'', ''-np'', ''{tot_num_mpiprocs}'']\<rparr>"

text \<open>
  A scheduler whose job resource takes the processes per machine from the total when
  the number of machines and the total are both given, and reads no default then; a
  computer with that scheduler, a default of 16 and a launcher command that names the
  per-node field; and a request for 2 machines and 8 processes in all.
\<close>

definition ex_create_from_total :: "pydict \<Rightarrow> pyerr + job_resource" where
  "ex_create_from_total kw =
     (case (kw ''num_machines'', kw ''tot_num_mpiprocs'') of
        (Some (PyInt m), Some (PyInt t)) \<Rightarrow>
          (case kw ''num_mpiprocs_per_machine'' of
             None \<Rightarrow>
               Inr \<lparr>items = [(''num_machines'', PyInt m),
                               (''num_mpiprocs_per_machine'', PyInt (t div m))],
                    get_tot_num_mpiprocs = PyInt t\<rparr>
           | Some v \<Rightarrow> ex_create_job_resource kw)
      | _ \<Rightarrow> ex_create_job_resource kw)"

definition ex_computer_total :: computer where
  "ex_computer_total =
     \<lparr>get_default_mpiprocs_per_machine = Some 16,
      create_job_resource = ex_create_from_total,
      get_mpirun_command =
        [''mpirun'', ''-np'', ''{tot_num_mpiprocs}'', ''-ppn'', ''{num_mpiprocs_per_machine}'']\<rparr>"

text \<open>
  An interpreter stand-in for the sample runs, whose launcher commands hold fields of a
  bare name only and never ask for it.
\<close>

definition ex_py :: field_formatter where
  "ex_py = (\<lambda>kwargs v accesses conversion spec. Inl (OtherError ''not needed''))"

text \<open>A launcher command with a field that no job resource of the scheduler has.\<close>

definition ex_computer_bad :: computer where
  "ex_computer_bad =
     ex_computer\<lparr>get_mpirun_command := [''srun'', ''-n'', ''{nprocs}'']\<rparr>"

definition ex_code :: code where
  "ex_code = \<lparr>uuid = ''vasp-uuid'', get_execname = ''vasp_std'', computer = ex_computer\<rparr>"

definition ex_custodian :: code where
  "ex_custodian = \<lparr>uuid = ''cstdn-uuid'', get_execname = ''cstdn'', computer = ex_computer\<rparr>"

definition ex_options :: options where
  "ex_options =
     \<lparr>withmpi_option = True,
      resources = [''num_machines'' \<mapsto> PyInt 2],
      mpirun_extra_params = [''--bind-to'', ''core''],
      submit_script_filename = Some ''_aiidasubmit.sh''\<rparr>"

text \<open>
  The remote tree \<open>{a/CONTCAR, a/OUTCAR, b/job_tmpl.json}\<close>; the listing of a file
  raises \<open>NotADirectoryError\<close>.
\<close>

definition ex_listdir :: "string \<Rightarrow> pyerr + string list" where
  "ex_listdir p =
     (let ps = path_parts p
      in if ps = [] then Inr [''a'', ''b'']
         else if ps = [''a''] then Inr [''CONTCAR'', ''OUTCAR'']
         else if ps = [''b''] then Inr [''job_tmpl.json'']
         else if ps = [''a'', ''CONTCAR''] \<or> ps = [''a'', ''OUTCAR'']
                 \<or> ps = [''b'', ''job_tmpl.json'']
              then Inl (OSError ENOTDIR)
         else Inl (OSError ENOENT))"

definition ex_remote :: remote_data where
  "ex_remote =
     \<lparr>listdir = ex_listdir, get_remote_path = ''/scratch/run1'', computer_uuid = ''comp-uuid''\<rparr>"

text \<open>
  The same place seen through a connection that times out while \<open>a\<close> is listed.
\<close>

definition ex_remote_timeout :: remote_data where
  "ex_remote_timeout =
     ex_remote\<lparr>listdir :=
       (\<lambda>p. if path_parts p = [''a''] then Inl (OSError ETIMEDOUT) else ex_listdir p)\<rparr>"

text \<open>A remote tree with a file two directories down, \<open>{a/b/WAVECAR}\<close>.\<close>

definition ex_remote_deep :: remote_data where
  "ex_remote_deep =
     ex_remote\<lparr>listdir :=
       (\<lambda>p. let ps = path_parts p
            in if ps = [] then Inr [''a'']
               else if ps = [''a''] then Inr [''b'']
               else if ps = [''a'', ''b''] then Inr [''WAVECAR'']
               else if ps = [''a'', ''b'', ''WAVECAR''] then Inl (OSError ENOTDIR)
               else Inl (OSError ENOENT))\<rparr>"

definition ex_inputs :: inputs where
  "ex_inputs =
     \<lparr>calc_uuid = ''calc-uuid'', code = ex_code, custodian_code = None,
      options = ex_options, restart_folder = Some ex_remote,
      contcar_to_poscar = Some True\<rparr>"

definition ex_inputs_total :: inputs where
  "ex_inputs_total =
     ex_inputs\<lparr>code := ex_code\<lparr>computer := ex_computer_total\<rparr>,
               options := ex_options\<lparr>resources :=
                 [''num_machines'' \<mapsto> PyInt 2, ''tot_num_mpiprocs'' \<mapsto> PyInt 8]\<rparr>\<rparr>"

definition ex_inputs_deep :: inputs where
  "ex_inputs_deep = ex_inputs\<lparr>restart_folder := Some ex_remote_deep\<rparr>"

definition ex_inputs_supervised :: inputs where
  "ex_inputs_supervised = ex_inputs\<lparr>custodian_code := Some ex_custodian\<rparr>"

definition ex_inputs_bad :: inputs where
  "ex_inputs_bad = ex_inputs\<lparr>code := ex_code\<lparr>computer := ex_computer_bad\<rparr>\<rparr>"

definition ex_inputs_bad_serial :: inputs where
  "ex_inputs_bad_serial = ex_inputs_bad\<lparr>options := ex_options\<lparr>withmpi_option := False\<rparr>\<rparr>"

text \<open>A subclass that copies the restart folder, or writes nothing for a regular run.\<close>

definition ex_hooks :: hooks where
  "ex_hooks =
     \<lparr>create_inputs_for_restart_run = restart_copy_remote 5 ''/'' ex_defaults ex_inputs,
      create_inputs_for_regular_run = (\<lambda>folder calcinfo fs. Inr (calcinfo, fs))\<rparr>"

definition ex_calcinfo :: CalcInfo where
  "ex_calcinfo =
     \<lparr>calcinfo_uuid = Some ''calc-uuid'', codes_info = [], local_copy_list = [],
      remote_copy_list = [], remote_symlink_list = [], retrieve_temporary_list = [],
      codes_run_mode = Some SERIAL\<rparr>"

text \<open>An empty sandbox folder.\<close>

definition ex_fs :: local_fs where
  "ex_fs = [[] \<mapsto> Directory, [''sandbox''] \<mapsto> Directory]"

section \<open>Facts about paths\<close>

lemma split_sep_nonempty: "split_sep s \<noteq> []"
  by (induction s) (auto split: list.splits)

lemma split_sep_append:
  "split_sep (a @ CHR ''/'' # b) = split_sep a @ split_sep b"
proof (induction a)
  case Nil
  show ?case by simp
next
  case (Cons c a)
  show ?case
  proof (cases "c = CHR ''/''")
    case True
    with Cons show ?thesis by simp
  next
    case False
    obtain p ps where sp: "split_sep a = p # ps"
      using split_sep_nonempty [of a] by (cases "split_sep a") auto
    with False Cons show ?thesis by simp
  qed
qed

lemma split_sep_no_slash: "x \<in> set (split_sep s) \<Longrightarrow> CHR ''/'' \<notin> set x"
proof (induction s arbitrary: x)
  case Nil
  then show ?case by simp
next
  case (Cons c s)
  obtain p ps where sp: "split_sep s = p # ps"
    using split_sep_nonempty [of s] by (cases "split_sep s") auto
  from Cons.prems Cons.IH sp show ?case
    by (auto split: if_splits)
qed

lemma split_sep_single: "CHR ''/'' \<notin> set x \<Longrightarrow> split_sep x = [x]"
  by (induction x) auto

lemma split_sep_join:
  "xs \<noteq> [] \<Longrightarrow> \<forall>x \<in> set xs. CHR ''/'' \<notin> set x \<Longrightarrow> split_sep (join_sep xs) = xs"
proof (induction xs rule: join_sep.induct)
  case 1
  then show ?case by simp
next
  case (2 x)
  then show ?case by (simp add: split_sep_single)
next
  case (3 x y ys)
  then show ?case by (simp add: split_sep_append split_sep_single)
qed

lemma path_parts_filter: "path_parts s = filter (\<lambda>x. x \<noteq> [] \<and> x \<noteq> ''.'') (split_sep s)"
  unfolding path_parts_def by (induction s) auto

lemma path_parts_append:
  "path_parts (a @ CHR ''/'' # b) = path_parts a @ path_parts b"
  by (simp add: path_parts_filter split_sep_append)

lemma path_parts_no_slash: "x \<in> set (path_parts s) \<Longrightarrow> CHR ''/'' \<notin> set x"
  by (auto simp: path_parts_filter dest: split_sep_no_slash)

lemma path_parts_join: "path_parts (join_sep (path_parts s)) = path_parts s"
proof (cases "path_parts s = []")
  case True
  then show ?thesis by (simp add: path_parts_def)
next
  case False
  have "split_sep (join_sep (path_parts s)) = path_parts s"
    using False by (intro split_sep_join) (auto dest: path_parts_no_slash)
  then have "path_parts (join_sep (path_parts s)) = filter (\<lambda>x. x \<noteq> [] \<and> x \<noteq> ''.'') (path_parts s)"
    by (simp add: path_parts_filter)
  also have "\<dots> = path_parts s"
    by (simp add: path_parts_filter)
  finally show ?thesis .
qed

lemma path_root_relative: "relative s \<Longrightarrow> path_root s = []"
  by (simp add: relative_def path_root_def)

lemma path_str_relative:
  "relative s \<Longrightarrow> path_str (Path s) = (if path_parts s = [] then ''.'' else join_sep (path_parts s))"
  by (simp add: path_str_def Path_def path_root_relative)

lemma path_parts_normalised:
  "relative s \<Longrightarrow> path_parts (path_str (Path s)) = path_parts s"
  by (simp add: path_str_relative path_parts_join) (simp add: path_parts_def)

lemma hd_join_sep: "xs \<noteq> [] \<Longrightarrow> hd xs \<noteq> [] \<Longrightarrow> hd (join_sep xs) = hd (hd xs)"
  by (induction xs rule: join_sep.induct) auto

lemma join_sep_nonempty: "xs \<noteq> [] \<Longrightarrow> hd xs \<noteq> [] \<Longrightarrow> join_sep xs \<noteq> []"
  by (induction xs rule: join_sep.induct) auto

lemma relative_normalised: "relative s \<Longrightarrow> relative (path_str (Path s))"
proof (cases "path_parts s = []")
  case True
  assume "relative s"
  with True show ?thesis by (simp add: path_str_relative relative_def)
next
  case False
  assume rel: "relative s"
  from False have h: "hd (path_parts s) \<in> set (path_parts s)" by simp
  then have ne: "hd (path_parts s) \<noteq> []" by (simp add: path_parts_filter)
  from h have "CHR ''/'' \<notin> set (hd (path_parts s))" by (rule path_parts_no_slash)
  with ne have "hd (hd (path_parts s)) \<noteq> CHR ''/''"
    by (cases "hd (path_parts s)") auto
  with False ne rel show ?thesis
    by (simp add: path_str_relative relative_def hd_join_sep join_sep_nonempty)
qed

lemma relative_subpath: "relative q \<Longrightarrow> relative (q @ ''/'' @ p)"
  by (cases q) (auto simp: relative_def)

lemma takeWhile_slash_append:
  assumes "relative q"
  shows "takeWhile (\<lambda>c. c = CHR ''/'') (R @ CHR ''/'' # q) =
           (if \<forall>c \<in> set R. c = CHR ''/'' then R @ ''/'' else takeWhile (\<lambda>c. c = CHR ''/'') R)"
  using assms by (cases q) (auto simp: relative_def takeWhile_append)

lemma path_root_subpath:
  assumes "relative q" and "relative q'"
  shows "path_root (R @ CHR ''/'' # q) = path_root (R @ CHR ''/'' # q')"
  unfolding path_root_def
  by (simp only: takeWhile_slash_append [OF assms(1)] takeWhile_slash_append [OF assms(2)])
     (cases R; simp)

lemma Path_subpath:
  assumes "relative q" and "relative q'" and "path_parts q = path_parts q'"
  shows "Path (R @ ''/'' @ q @ ''/'' @ p) = Path (R @ ''/'' @ q' @ ''/'' @ p)"
proof -
  have "relative (q @ ''/'' @ p)" "relative (q' @ ''/'' @ p)"
    using assms by (simp_all only: relative_subpath)
  then have "path_root (R @ CHR ''/'' # (q @ ''/'' @ p)) = path_root (R @ CHR ''/'' # (q' @ ''/'' @ p))"
    by (rule path_root_subpath)
  then show ?thesis
    using assms(3) by (simp add: Path_def path_parts_append)
qed

section \<open>The traversal and its reference\<close>

lemma same_place_subpath:
  "same_place q q' \<Longrightarrow> same_place (q @ ''/'' @ p) (q' @ ''/'' @ p)"
  unfolding same_place_def
  by (simp add: relative_subpath path_parts_append del: append.simps)
     (simp add: path_parts_append)

lemma same_place_normalised:
  "same_place q q' \<Longrightarrow> same_place (path_str (Path q)) q'"
  unfolding same_place_def
  by (simp add: relative_normalised path_parts_normalised)

lemma same_place_str:
  "same_place q q' \<Longrightarrow> path_str (Path q) = path_str (Path q')"
  unfolding same_place_def by (simp add: path_str_relative)

lemma same_place_abspath:
  "same_place q q' \<Longrightarrow>
     Path (R @ ''/'' @ q @ ''/'' @ p) = Path (R @ ''/'' @ q' @ ''/'' @ p)"
  unfolding same_place_def by (blast intro: Path_subpath)

lemma same_place_listdir:
  "resolves_by_parts rd \<Longrightarrow> same_place q q' \<Longrightarrow> listdir rd q = listdir rd q'"
  unfolding resolves_by_parts_def same_place_def by blast

lemma loop_agrees:
  assumes rec: "\<And>q q'. same_place q q' \<Longrightarrow>
                  remote_filelist n cwd rd q = remote_filelist_pure n cwd rd q'"
    and sp: "same_place q q'"
  shows "filelist_loop n cwd rd q paths acc = filelist_loop_pure n cwd rd q' paths acc"
  using sp
proof (induction paths arbitrary: q acc)
  case Nil
  show ?case by simp
next
  case (Cons p rest)
  have sub: "remote_filelist n cwd rd (q @ ''/'' @ p) = remote_filelist_pure n cwd rd (q' @ ''/'' @ p)"
    using Cons.prems by (intro rec same_place_subpath)
  show ?case
  proof (cases "remote_filelist_pure n cwd rd (q' @ ''/'' @ p)")
    case (Inr files)
    with sub Cons.IH [OF Cons.prems] show ?thesis
      by (simp del: append.simps)
  next
    case (Inl e)
    show ?thesis
    proof (cases "is_OSError e")
      case False
      with Inl sub show ?thesis by (simp del: append.simps)
    next
      case True
      have a: "Path (get_remote_path rd @ ''/'' @ q @ ''/'' @ p)
                 = Path (get_remote_path rd @ ''/'' @ q' @ ''/'' @ p)"
        using Cons.prems by (rule same_place_abspath)
      have s: "path_str (Path q) = path_str (Path q')"
        using Cons.prems by (rule same_place_str)
      have n: "same_place (path_str (Path q)) q'"
        using Cons.prems by (rule same_place_normalised)
      from True Inl sub a s Cons.IH [OF n] show ?thesis
        by (simp add: Let_def del: append.simps)
    qed
  qed
qed

lemma traversal_agrees:
  assumes "resolves_by_parts rd"
  shows "same_place q q' \<Longrightarrow> remote_filelist n cwd rd q = remote_filelist_pure n cwd rd q'"
proof (induction n arbitrary: q q')
  case 0
  show ?case by simp
next
  case (Suc n)
  have l: "listdir rd q = listdir rd q'"
    using assms Suc.prems by (rule same_place_listdir)
  show ?case
  proof (cases "listdir rd q'")
    case (Inl e)
    with l show ?thesis by simp
  next
    case (Inr paths)
    with l loop_agrees [of n cwd rd q q' paths "[]", OF Suc.IH Suc.prems] show ?thesis
      by simp
  qed
qed

lemma normalised_idem:
  assumes "relative q"
  shows "path_str (Path (path_str (Path q))) = path_str (Path q)"
proof -
  let ?r = "path_str (Path q)"
  have r: "relative ?r" using assms by (rule relative_normalised)
  have p: "path_parts ?r = path_parts q" using assms by (rule path_parts_normalised)
  have "path_str (Path ?r) = (if path_parts ?r = [] then ''.'' else join_sep (path_parts ?r))"
    using r by (rule path_str_relative)
  also have "\<dots> = (if path_parts q = [] then ''.'' else join_sep (path_parts q))"
    by (simp only: p)
  also have "\<dots> = ?r"
    using assms by (rule path_str_relative [symmetric])
  finally show ?thesis .
qed

lemma join_sep_Cons: "join_sep (x # xs) = (if xs = [] then x else x @ CHR ''/'' # join_sep xs)"
  by (cases xs) auto

lemma normalised_no_dot_slash:
  assumes "relative q"
  shows "take 2 (path_str (Path q)) \<noteq> ''./''"
proof (cases "path_parts q")
  case Nil
  with assms show ?thesis by (simp add: path_str_relative)
next
  case (Cons x xs)
  then have m: "x \<in> set (path_parts q)" by simp
  then have ns: "CHR ''/'' \<notin> set x" by (rule path_parts_no_slash)
  from m have ne: "x \<noteq> []" and nd: "x \<noteq> ''.''" by (simp_all add: path_parts_filter)
  from ne obtain c cs where x: "x = c # cs" by (cases x) auto
  show ?thesis
  proof (cases cs)
    case Nil
    with x nd have "c \<noteq> CHR ''.''" by simp
    with x Cons assms show ?thesis
      by (simp add: path_str_relative join_sep_Cons)
  next
    case (Cons d ds)
    with x ns have "d \<noteq> CHR ''/''" by auto
    with x Cons \<open>path_parts q = x # xs\<close> assms show ?thesis
      by (simp add: path_str_relative join_sep_Cons)
  qed
qed

lemma well_placed_entry:
  assumes "relative q"
  shows "well_placed R cwd
           (p, path_str (absolute cwd (Path (R @ ''/'' @ q @ ''/'' @ p))), path_str (Path q))"
proof -
  have "same_place q q" using assms by (simp add: same_place_def)
  then have "same_place (path_str (Path q)) q" by (rule same_place_normalised)
  then have "Path (R @ ''/'' @ path_str (Path q) @ ''/'' @ p) = Path (R @ ''/'' @ q @ ''/'' @ p)"
    by (rule same_place_abspath)
  with assms show ?thesis
    unfolding well_placed_def
    by (simp add: relative_normalised normalised_idem normalised_no_dot_slash
          del: append.simps)
qed

lemma loop_entries:
  assumes rec: "\<And>q files. relative q \<Longrightarrow> remote_filelist n cwd rd q = Inr files \<Longrightarrow>
                  \<forall>entry \<in> set files. well_placed (get_remote_path rd) cwd entry"
  shows "relative q \<Longrightarrow> \<forall>entry \<in> set acc. well_placed (get_remote_path rd) cwd entry \<Longrightarrow>
         filelist_loop n cwd rd q paths acc = Inr files \<Longrightarrow>
         \<forall>entry \<in> set files. well_placed (get_remote_path rd) cwd entry"
proof (induction paths arbitrary: q acc)
  case Nil
  then show ?case by simp
next
  case (Cons p rest)
  have sub: "relative (q @ ''/'' @ p)"
    using Cons.prems(1) by (rule relative_subpath)
  show ?case
  proof (cases "remote_filelist n cwd rd (q @ ''/'' @ p)")
    case (Inr found)
    from rec [OF sub Inr] Cons.prems(2) have
      a: "\<forall>entry \<in> set (acc @ found). well_placed (get_remote_path rd) cwd entry"
      by auto
    from Inr Cons.prems(3) have
      "filelist_loop n cwd rd q rest (acc @ found) = Inr files"
      by (simp del: append.simps)
    from Cons.IH [OF Cons.prems(1) a this] show ?thesis .
  next
    case (Inl e)
    with Cons.prems(3) have os: "is_OSError e"
      by (auto simp del: append.simps split: if_splits)
    let ?entry = "(p, path_str (absolute cwd (Path (get_remote_path rd @ ''/'' @ q @ ''/'' @ p))),
                   path_str (Path q))"
    have "well_placed (get_remote_path rd) cwd ?entry"
      using Cons.prems(1) by (rule well_placed_entry)
    with Cons.prems(2) have
      a: "\<forall>entry \<in> set (acc @ [?entry]). well_placed (get_remote_path rd) cwd entry"
      by auto
    from Inl os Cons.prems(3) have
      "filelist_loop n cwd rd (path_str (Path q)) rest (acc @ [?entry]) = Inr files"
      by (simp add: Let_def del: append.simps)
    from Cons.IH [OF relative_normalised [OF Cons.prems(1)] a this] show ?thesis .
  qed
qed

lemma traversal_entries:
  "relative q \<Longrightarrow> remote_filelist n cwd rd q = Inr files \<Longrightarrow>
     \<forall>entry \<in> set files. well_placed (get_remote_path rd) cwd entry"
proof (induction n arbitrary: q files)
  case 0
  then show ?case by simp
next
  case (Suc n)
  from Suc.prems(2) obtain paths where
    "filelist_loop n cwd rd q paths [] = Inr files"
    by (auto split: sum.splits)
  with loop_entries [of n cwd rd q "[]" paths files] Suc.IH Suc.prems(1)
  show ?case by simp
qed

text \<open>
  Claim C10. On a remote folder that resolves relative paths by their parts, the
  traversal of the source, which reassigns \<open>relpath\<close> inside its loop, returns the
  very list of entries (and so the same entries up to order), or raises the very
  exception, that the traversal without state between the entries returns. Every entry
  it returns carries the normal form of the path of its directory, which never starts
  with \<open>./\<close>, and an absolute path that is a function of the remote path, that
  directory and the file name alone.
\<close>

theorem reassigned_relpath_is_harmless:
  assumes "resolves_by_parts rd" and "relative relpath"
  shows "remote_filelist depth cwd rd relpath = remote_filelist_pure depth cwd rd relpath
         \<and> (\<forall>files. remote_filelist depth cwd rd relpath = Inr files \<longrightarrow>
               (\<forall>entry \<in> set files. well_placed (get_remote_path rd) cwd entry))"
proof -
  have "same_place relpath relpath" using assms(2) by (simp add: same_place_def)
  with assms(1) have
    "remote_filelist depth cwd rd relpath = remote_filelist_pure depth cwd rd relpath"
    by (rule traversal_agrees)
  with assms(2) show ?thesis by (blast dest: traversal_entries)
qed

lemma ex_files:
  "remote_filelist 5 ''/'' ex_remote ''.'' =
     Inr [(''CONTCAR'', ''/scratch/run1/a/CONTCAR'', ''a''),
          (''OUTCAR'', ''/scratch/run1/a/OUTCAR'', ''a''),
          (''job_tmpl.json'', ''/scratch/run1/b/job_tmpl.json'', ''b'')]"
  by code_simp

theorem reassigned_relpath_is_harmless_witness:
  "remote_filelist 5 ''/'' ex_remote ''.'' = remote_filelist_pure 5 ''/'' ex_remote ''.''
   \<and> well_placed ''/scratch/run1'' ''/'' (''CONTCAR'', ''/scratch/run1/a/CONTCAR'', ''a'')"
proof -
  have r: "resolves_by_parts ex_remote"
    by (simp add: resolves_by_parts_def ex_remote_def ex_listdir_def)
  have d: "relative ''.''"
    by (simp add: relative_def)
  have p: "get_remote_path ex_remote = ''/scratch/run1''"
    by (simp add: ex_remote_def)
  from reassigned_relpath_is_harmless [OF r d, of 5 "''/''"] ex_files p
  show ?thesis by simp
qed

section \<open>A listing that fails\<close>

text \<open>
  Claim C1. The listing of the directory \<open>a\<close> times out, an \<open>OSError\<close> of the
  transport and not the signal that \<open>a\<close> is a file. \<open>remote_filelist\<close> does not
  abort: its handler takes every \<open>OSError\<close> for that signal, so the call returns a
  list in which \<open>a\<close> is a file and the two files of \<open>a\<close>, which the intact
  connection finds, are missing.
\<close>

theorem timeout_recorded_as_file:
  "listdir ex_remote_timeout ''./a'' = Inl (OSError ETIMEDOUT)
   \<and> remote_filelist 5 ''/'' ex_remote_timeout ''.'' =
       Inr [(''a'', ''/scratch/run1/a'', ''.''),
            (''job_tmpl.json'', ''/scratch/run1/b/job_tmpl.json'', ''b'')]
   \<and> remote_filelist 5 ''/'' ex_remote ''.'' =
       Inr [(''CONTCAR'', ''/scratch/run1/a/CONTCAR'', ''a''),
            (''OUTCAR'', ''/scratch/run1/a/OUTCAR'', ''a''),
            (''job_tmpl.json'', ''/scratch/run1/b/job_tmpl.json'', ''b'')]"
  by code_simp

section \<open>The code entries of the plan\<close>

lemma copy_loop_codes_info:
  "copy_loop dflt u ex ow folder files ci fs = Inr (ci', fs') \<Longrightarrow> codes_info ci' = codes_info ci"
proof (induction files arbitrary: ci fs)
  case Nil
  then show ?case by simp
next
  case (Cons entry files)
  obtain name abspath relpath where e: "entry = (name, abspath, relpath)"
    by (cases entry) auto
  from Cons.prems show ?case
    unfolding e
    by (auto simp: Let_def split: if_splits sum.splits dest: Cons.IH)
qed

lemma restart_copy_remote_keeps_codes_info:
  "keeps_codes_info (restart_copy_remote depth cwd dflt inp)"
  unfolding keeps_codes_info_def restart_copy_remote_def
  by (auto simp: Let_def split: option.splits sum.splits dest: copy_loop_codes_info)

lemma ex_hooks_keep:
  "keeps_codes_info (create_inputs_for_restart_run ex_hooks)"
  "keeps_codes_info (create_inputs_for_regular_run ex_hooks)"
  by (simp_all add: ex_hooks_def restart_copy_remote_keeps_codes_info)
     (simp add: keeps_codes_info_def)

lemma keeps_codes_infoD:
  "keeps_codes_info h \<Longrightarrow> h folder ci fs = Inr (ci', fs') \<Longrightarrow> codes_info ci' = codes_info ci"
  unfolding keeps_codes_info_def by blast

lemma prepare_for_submission_codes_info:
  assumes "keeps_codes_info (create_inputs_for_restart_run hk)"
    and "keeps_codes_info (create_inputs_for_regular_run hk)"
    and "prepare_for_submission dflt hk inp folder fs = Inr (plan, fs')"
  shows "codes_info plan =
     [case custodian_code inp of
        None \<Rightarrow>
          \<lparr>code_uuid = Some (uuid (code inp)), cmdline_params = None,
           stdout_name = Some (STDOUT_FNAME dflt), stderr_name = Some (STDERR_FNAME dflt),
           withmpi = None\<rparr>
      | Some custodian \<Rightarrow>
          \<lparr>code_uuid = Some (uuid custodian),
           cmdline_params = Some [''run'', CSTDN_SPEC_FNAME dflt],
           stdout_name = None, stderr_name = None, withmpi = Some False\<rparr>]"
proof (cases "restart_folder inp")
  case None
  with assms(3) show ?thesis
    by (auto simp: prepare_for_submission_def new_CodeInfo_def Let_def
          split: option.splits dest!: keeps_codes_infoD [OF assms(2)])
next
  case (Some rd)
  with assms(3) show ?thesis
    by (auto simp: prepare_for_submission_def new_CodeInfo_def Let_def
          split: option.splits dest!: keeps_codes_infoD [OF assms(1)])
qed

text \<open>
  Claim C4. When a custodian code is given, the plan that \<open>prepare_for_submission\<close>
  returns has exactly one code entry: it names the custodian code, its command line
  parameters are the two tokens \<open>run\<close> and the name of the custodian spec file, and its
  \<open>withmpi\<close> flag is \<open>False\<close>, whatever the \<open>withmpi\<close> option of the calculation
  says. The hooks of the subclass are any that leave the code entries alone.
\<close>

theorem supervised_single_entry:
  assumes "custodian_code inp = Some custodian"
    and "keeps_codes_info (create_inputs_for_restart_run hk)"
    and "keeps_codes_info (create_inputs_for_regular_run hk)"
    and "prepare_for_submission dflt hk inp folder fs = Inr (plan, fs')"
  shows "codes_info plan =
           [\<lparr>code_uuid = Some (uuid custodian),
             cmdline_params = Some [''run'', CSTDN_SPEC_FNAME dflt],
             stdout_name = None, stderr_name = None, withmpi = Some False\<rparr>]"
  using prepare_for_submission_codes_info [OF assms(2,3,4)] assms(1) by simp

theorem supervised_single_entry_witness:
  "map_sum id (codes_info \<circ> fst)
     (prepare_for_submission ex_defaults ex_hooks ex_inputs_supervised ''/sandbox'' ex_fs) =
   Inr [\<lparr>code_uuid = Some ''cstdn-uuid'',
          cmdline_params = Some [''run'', ''cstdn_spec.yaml''],
          stdout_name = None, stderr_name = None, withmpi = Some False\<rparr>]"
proof -
  have "\<not> isl (prepare_for_submission ex_defaults ex_hooks ex_inputs_supervised ''/sandbox'' ex_fs)"
    by code_simp
  then obtain plan fs' where run:
    "prepare_for_submission ex_defaults ex_hooks ex_inputs_supervised ''/sandbox'' ex_fs
       = Inr (plan, fs')"
    by (cases "prepare_for_submission ex_defaults ex_hooks ex_inputs_supervised ''/sandbox'' ex_fs")
       auto
  have c: "custodian_code ex_inputs_supervised = Some ex_custodian"
    by (simp add: ex_inputs_supervised_def)
  have "codes_info plan =
          [\<lparr>code_uuid = Some (uuid ex_custodian),
            cmdline_params = Some [''run'', CSTDN_SPEC_FNAME ex_defaults],
            stdout_name = None, stderr_name = None, withmpi = Some False\<rparr>]"
    by (rule supervised_single_entry [OF c ex_hooks_keep run])
  with run show ?thesis
    by (simp add: ex_custodian_def ex_defaults_def)
qed

text \<open>
  Claim C5, amended. Without a custodian code the plan has exactly one code entry: it
  names the VASP code and carries the names of the files that capture standard output
  and standard error. Its \<open>withmpi\<close> flag is left unset and not set to the caller's
  request; the engine reads an unset flag as the \<open>withmpi\<close> option of the
  calculation, so the flag in effect equals the caller's request.
\<close>

theorem direct_single_entry:
  assumes "custodian_code inp = None"
    and "keeps_codes_info (create_inputs_for_restart_run hk)"
    and "keeps_codes_info (create_inputs_for_regular_run hk)"
    and "prepare_for_submission dflt hk inp folder fs = Inr (plan, fs')"
  shows "codes_info plan =
           [\<lparr>code_uuid = Some (uuid (code inp)), cmdline_params = None,
             stdout_name = Some (STDOUT_FNAME dflt), stderr_name = Some (STDERR_FNAME dflt),
             withmpi = None\<rparr>]
         \<and> (\<forall>entry \<in> set (codes_info plan).
               effective_withmpi entry (options inp) = withmpi_option (options inp))"
  using prepare_for_submission_codes_info [OF assms(2,3,4)] assms(1)
  by (simp add: effective_withmpi_def)

theorem direct_single_entry_witness:
  "map_sum id ((\<lambda>es. (es, map (\<lambda>e. effective_withmpi e (options ex_inputs)) es)) \<circ> codes_info \<circ> fst)
     (prepare_for_submission ex_defaults ex_hooks ex_inputs ''/sandbox'' ex_fs) =
   Inr ([\<lparr>code_uuid = Some ''vasp-uuid'', cmdline_params = None,
           stdout_name = Some ''aiida.out'', stderr_name = Some ''aiida.err'',
           withmpi = None\<rparr>], [True])"
proof -
  have "\<not> isl (prepare_for_submission ex_defaults ex_hooks ex_inputs ''/sandbox'' ex_fs)"
    by code_simp
  then obtain plan fs' where run:
    "prepare_for_submission ex_defaults ex_hooks ex_inputs ''/sandbox'' ex_fs = Inr (plan, fs')"
    by (cases "prepare_for_submission ex_defaults ex_hooks ex_inputs ''/sandbox'' ex_fs") auto
  have c: "custodian_code ex_inputs = None"
    by (simp add: ex_inputs_def)
  from direct_single_entry [OF c ex_hooks_keep run] run show ?thesis
    by (simp add: ex_inputs_def ex_code_def ex_defaults_def ex_options_def)
qed

text \<open>
  The flag of the entry is \<open>None\<close> where the caller asked for a parallel run.
\<close>

theorem direct_flag_counterexample:
  "withmpi_option (options ex_inputs) = True \<and>
   map_sum id (map withmpi \<circ> codes_info \<circ> fst)
     (prepare_for_submission ex_defaults ex_hooks ex_inputs ''/sandbox'' ex_fs) = Inr [None]"
  by code_simp

section \<open>The job resource and the run line\<close>

text \<open>
  Claim C2, amended. When the computer declares a default number of processes per
  machine, \<open>vasp_calc_mpi_args\<close> hands it to the scheduler's
  \<open>create_job_resource\<close> under the keyword \<open>default_mpiprocs_per_machine\<close>, whether
  or not the user's resources carry \<open>num_mpiprocs_per_machine\<close>, and hands on the
  user's \<open>num_mpiprocs_per_machine\<close> as it is: the default never overwrites it. The
  launcher arguments are formatted from the job resource that the scheduler builds from
  these keyword arguments; its per-node field is the scheduler's to decide.
\<close>

theorem default_handed_to_scheduler:
  assumes "get_default_mpiprocs_per_machine (computer (code inp)) = Some d"
  shows "vasp_calc_mpi_args py inp =
           (case create_job_resource (computer (code inp))
                   ((resources (options inp))(''default_mpiprocs_per_machine'' \<mapsto> PyInt d)) of
              Inl e \<Rightarrow> Inl e
            | Inr jr \<Rightarrow>
                (case format_each py (get_mpirun_command (computer (code inp)))
                        (mpi_arg_dict jr) of
                   Inl e \<Rightarrow> Inl e
                 | Inr mpi_base_args \<Rightarrow>
                     Inr (mpi_base_args, mpirun_extra_params (options inp))))
         \<and> job_resource_kwargs (computer (code inp)) (resources (options inp))
               ''num_mpiprocs_per_machine''
             = resources (options inp) ''num_mpiprocs_per_machine''"
  using assms
  by (simp add: vasp_calc_mpi_args_def job_resource_kwargs_def Let_def)

theorem default_handed_to_scheduler_witness:
  "vasp_calc_mpi_args ex_py ex_inputs = Inr ([''mpirun'', ''-np'', ''8''], [''--bind-to'', ''core''])
   \<and> job_resource_kwargs ex_computer [''num_machines'' \<mapsto> PyInt 2]
         ''num_mpiprocs_per_machine'' = None"
proof -
  have d: "get_default_mpiprocs_per_machine (computer (code ex_inputs)) = Some 4"
    by (simp add: ex_inputs_def ex_code_def ex_computer_def)
  have c: "(case create_job_resource (computer (code ex_inputs))
                   ((resources (options ex_inputs))(''default_mpiprocs_per_machine'' \<mapsto> PyInt 4)) of
              Inl e \<Rightarrow> Inl e
            | Inr jr \<Rightarrow>
                (case format_each ex_py (get_mpirun_command (computer (code ex_inputs)))
                        (mpi_arg_dict jr) of
                   Inl e \<Rightarrow> Inl e
                 | Inr mpi_base_args \<Rightarrow>
                     Inr (mpi_base_args, mpirun_extra_params (options ex_inputs))))
           = Inr ([''mpirun'', ''-np'', ''8''], [''--bind-to'', ''core''])"
    by code_simp
  have r: "resources (options ex_inputs) = [''num_machines'' \<mapsto> PyInt 2]"
    by (simp add: ex_inputs_def ex_options_def)
  have k: "computer (code ex_inputs) = ex_computer"
    by (simp add: ex_inputs_def ex_code_def)
  from default_handed_to_scheduler [OF d, of ex_py] c r k show ?thesis
    by simp
qed

text \<open>
  With a scheduler that derives the processes per machine from the total, the request
  omits the per-node field, the computer declares 16, and the job resource and the
  launcher arguments carry 4.
\<close>

theorem default_not_in_descriptor_counterexample:
  "resources (options ex_inputs_total) ''num_mpiprocs_per_machine'' = None
   \<and> get_default_mpiprocs_per_machine (computer (code ex_inputs_total)) = Some 16
   \<and> map_sum id per_node_field
        (create_job_resource (computer (code ex_inputs_total))
           (job_resource_kwargs (computer (code ex_inputs_total))
              (resources (options ex_inputs_total)))) = Inr (Some (PyInt 4))
   \<and> vasp_calc_mpi_args ex_py ex_inputs_total =
        Inr ([''mpirun'', ''-np'', ''8'', ''-ppn'', ''4''], [''--bind-to'', ''core''])"
  by code_simp

text \<open>
  Claim C3. With \<open>withmpi\<close> set, the run line is the formatted tokens of the launcher
  command, then the user's extra launcher parameters, then the name of the executable;
  without it the run line is the name of the executable alone.
\<close>

theorem run_line_composition:
  "(withmpi_option (options inp) \<longrightarrow>
      create_job_resource (computer (code inp))
        (job_resource_kwargs (computer (code inp)) (resources (options inp))) = Inr jr \<longrightarrow>
      format_each py (get_mpirun_command (computer (code inp))) (mpi_arg_dict jr) = Inr base \<longrightarrow>
      vasp_run_line py inp =
        Inr (base @ mpirun_extra_params (options inp) @ [get_execname (code inp)]))
   \<and> (\<not> withmpi_option (options inp) \<longrightarrow>
        vasp_run_line py inp = Inr [get_execname (code inp)])"
  by (simp add: vasp_run_line_def vasp_calc_mpi_args_def Let_def)

lemma ex_format:
  "format_each ex_py (get_mpirun_command ex_computer)
     (mpi_arg_dict \<lparr>items = [(''num_machines'', PyInt 2), (''num_mpiprocs_per_machine'', PyInt 4)],
                    get_tot_num_mpiprocs = PyInt 8\<rparr>) = Inr [''mpirun'', ''-np'', ''8'']"
  by code_simp

theorem run_line_composition_witness:
  "vasp_run_line ex_py ex_inputs =
     Inr ([''mpirun'', ''-np'', ''8''] @ [''--bind-to'', ''core''] @ [''vasp_std''])
   \<and> vasp_run_line ex_py ex_inputs_bad_serial = Inr [''vasp_std'']"
proof -
  have w: "withmpi_option (options ex_inputs)"
    by (simp add: ex_inputs_def ex_options_def)
  have c: "create_job_resource (computer (code ex_inputs))
             (job_resource_kwargs (computer (code ex_inputs)) (resources (options ex_inputs))) =
           Inr \<lparr>items = [(''num_machines'', PyInt 2), (''num_mpiprocs_per_machine'', PyInt 4)],
                get_tot_num_mpiprocs = PyInt 8\<rparr>"
    by (simp add: ex_inputs_def ex_code_def ex_options_def ex_computer_def
          job_resource_kwargs_def ex_create_job_resource_def)
  have f: "format_each ex_py (get_mpirun_command (computer (code ex_inputs)))
             (mpi_arg_dict \<lparr>items = [(''num_machines'', PyInt 2),
                                      (''num_mpiprocs_per_machine'', PyInt 4)],
                            get_tot_num_mpiprocs = PyInt 8\<rparr>) = Inr [''mpirun'', ''-np'', ''8'']"
    using ex_format by (simp add: ex_inputs_def ex_code_def)
  have s: "\<not> withmpi_option (options ex_inputs_bad_serial)"
    by (simp add: ex_inputs_bad_serial_def)
  from run_line_composition [of ex_inputs _ ex_py] w c f
  have 1: "vasp_run_line ex_py ex_inputs =
     Inr ([''mpirun'', ''-np'', ''8''] @ mpirun_extra_params (options ex_inputs)
            @ [get_execname (code ex_inputs)])"
    by blast
  from run_line_composition [of ex_inputs_bad_serial _ ex_py] s
  have 2: "vasp_run_line ex_py ex_inputs_bad_serial
             = Inr [get_execname (code ex_inputs_bad_serial)]"
    by blast
  from 1 2 show ?thesis
    by (simp add: ex_inputs_def ex_inputs_bad_serial_def ex_inputs_bad_def ex_options_def
          ex_code_def)
qed

section \<open>A launcher field that is missing\<close>

lemma absent_error: "absent kwargs first \<Longrightarrow> get_value first kwargs = Inl (lookup_error first)"
  by (auto simp: absent_def get_value_def lookup_error_def
        split: sum.splits option.splits if_splits)

lemma render_lookups:
  "render py its kwargs = Inr s \<Longrightarrow> first \<in> set (first_parts its) \<Longrightarrow> \<not> absent kwargs first"
  by (induction py its kwargs arbitrary: s rule: render.induct)
     (auto simp: absent_def split: sum.splits if_splits)

lemma render_first_absent:
  "bare_items its \<Longrightarrow> find (absent kwargs) (first_parts its) = Some first \<Longrightarrow>
     render py its kwargs = Inl (lookup_error first)"
proof (induction py its kwargs rule: render.induct)
  case (4 py f accesses conversion spec more kwargs)
  show ?case
  proof (cases "absent kwargs f")
    case True
    with "4.prems" have "first = f" by simp
    with True show ?thesis by (simp add: absent_error)
  next
    case False
    then obtain v where v: "get_value f kwargs = Inr v"
      by (cases "get_value f kwargs") (auto simp: absent_def)
    from False "4.prems" have b: "bare_items more"
      and r: "find (absent kwargs) (first_parts more) = Some first"
      and p: "accesses = [] \<and> conversion = None \<and> spec = []"
      by auto
    from p have "render py more kwargs = Inl (lookup_error first)"
      using b r v by (intro "4.IH") auto
    with v p show ?thesis by simp
  qed
qed auto

lemma render_none_absent:
  "bare_items its \<Longrightarrow> find (absent kwargs) (first_parts its) = None \<Longrightarrow>
     \<exists>s. render py its kwargs = Inr s"
proof (induction py its kwargs rule: render.induct)
  case (4 py f accesses conversion spec more kwargs)
  from "4.prems" have na: "\<not> absent kwargs f" by (auto split: if_splits)
  then obtain v where v: "get_value f kwargs = Inr v"
    by (cases "get_value f kwargs") (auto simp: absent_def)
  from "4.prems" na have b: "bare_items more"
    and r: "find (absent kwargs) (first_parts more) = None"
    and p: "accesses = [] \<and> conversion = None \<and> spec = []"
    by auto
  from p have "\<exists>s. render py more kwargs = Inr s"
    using b r v by (intro "4.IH") auto
  with v p show ?case by auto
qed auto

lemma find_append:
  "find P (xs @ ys) = (case find P xs of Some x \<Rightarrow> Some x | None \<Rightarrow> find P ys)"
  by (induction xs) auto

lemma format_each_lookups:
  "format_each py ts kwargs = Inr ss \<Longrightarrow> t \<in> set ts \<Longrightarrow> first \<in> set (fields_of t) \<Longrightarrow>
     \<not> absent kwargs first"
proof (induction ts arbitrary: ss)
  case Nil
  then show ?case by simp
next
  case (Cons u ts)
  from Cons.prems(1) obtain s ss' where s: "format py u kwargs = Inr s"
    and r: "format_each py ts kwargs = Inr ss'"
    by (auto split: sum.splits)
  show ?case
  proof (cases "t = u")
    case True
    with s Cons.prems(3) show ?thesis
      by (auto simp: format_def fields_of_def dest: render_lookups)
  next
    case False
    with Cons.prems(2) have "t \<in> set ts" by simp
    from Cons.IH [OF r this Cons.prems(3)] show ?thesis .
  qed
qed

lemma format_each_first_absent:
  "list_all bare ts \<Longrightarrow> find (absent kwargs) (concat (map fields_of ts)) = Some first \<Longrightarrow>
     format_each py ts kwargs = Inl (lookup_error first)"
proof (induction ts)
  case Nil
  then show ?case by simp
next
  case (Cons t ts)
  from Cons.prems(1) have "bare t" and bs: "list_all bare ts"
    by simp_all
  then have bt: "bare_items (scan t)"
    by (simp add: bare_def)
  show ?case
  proof (cases "find (absent kwargs) (fields_of t)")
    case (Some g)
    with Cons.prems(2) have "g = first" by (simp add: find_append)
    with Some bt show ?thesis
      by (simp add: format_def fields_of_def render_first_absent)
  next
    case None
    with bt obtain s where "format py t kwargs = Inr s"
      unfolding format_def fields_of_def using render_none_absent by blast
    moreover from None Cons.prems(2) bs have
      "format_each py ts kwargs = Inl (lookup_error first)"
      by (intro Cons.IH) (simp_all add: find_append)
    ultimately show ?thesis by simp
  qed
qed

text \<open>
  Claim C9, amended. Let a parallel run be requested and the scheduler have built the job
  resource. A launcher command with a replacement field that the job resource does not
  supply makes the composition of the run line fail: the launcher is never left out
  silently. The failure is the error of \<open>str.format\<close> and no configuration error:
  for a command of literal text and fields of a bare name it is the error of the first
  such field, a \<open>KeyError\<close> that names the field, or an \<open>IndexError\<close> when the field
  is positional. The composition does not read the remote folder, so the failure comes
  before any remote input or output of its own.
\<close>

theorem missing_field_raises_KeyError:
  assumes "withmpi_option (options inp)"
    and "create_job_resource (computer (code inp))
           (job_resource_kwargs (computer (code inp)) (resources (options inp))) = Inr jr"
  shows "((\<exists>t \<in> set (get_mpirun_command (computer (code inp))).
            \<exists>first \<in> set (fields_of t). absent (mpi_arg_dict jr) first)
            \<longrightarrow> isl (vasp_run_line py inp))
         \<and> (list_all bare (get_mpirun_command (computer (code inp))) \<and>
             find (absent (mpi_arg_dict jr))
               (concat (map fields_of (get_mpirun_command (computer (code inp))))) = Some first
              \<longrightarrow> vasp_run_line py inp = Inl (lookup_error first))
         \<and> (list_all bare (get_mpirun_command (computer (code inp))) \<and>
             find (absent (mpi_arg_dict jr))
               (concat (map fields_of (get_mpirun_command (computer (code inp))))) = Some first \<and>
             first \<noteq> [] \<and> get_integer first = Inr None
              \<longrightarrow> vasp_run_line py inp = Inl (KeyError first))
         \<and> vasp_run_line py (inp\<lparr>restart_folder := remote\<rparr>) = vasp_run_line py inp"
proof -
  let ?cmd = "get_mpirun_command (computer (code inp))"
  have run: "vasp_run_line py inp =
               (case format_each py ?cmd (mpi_arg_dict jr) of
                  Inl e \<Rightarrow> Inl e
                | Inr base \<Rightarrow>
                    Inr (base @ mpirun_extra_params (options inp) @ [get_execname (code inp)]))"
    using assms
    by (simp add: vasp_run_line_def vasp_calc_mpi_args_def Let_def split: sum.splits)
  have a: "isl (vasp_run_line py inp)"
    if "\<exists>t \<in> set ?cmd. \<exists>first \<in> set (fields_of t). absent (mpi_arg_dict jr) first"
  proof (cases "format_each py ?cmd (mpi_arg_dict jr)")
    case (Inl e)
    with run show ?thesis by simp
  next
    case (Inr base)
    with that format_each_lookups [OF Inr] show ?thesis by blast
  qed
  have b: "vasp_run_line py inp = Inl (lookup_error first)"
    if "list_all bare ?cmd"
      "find (absent (mpi_arg_dict jr)) (concat (map fields_of ?cmd)) = Some first"
    using format_each_first_absent [OF that, of py] run by simp
  have c: "vasp_run_line py (inp\<lparr>restart_folder := remote\<rparr>) = vasp_run_line py inp"
    by (simp add: vasp_run_line_def vasp_calc_mpi_args_def Let_def split: sum.splits)
  from a b c show ?thesis
    by (auto simp: lookup_error_def)
qed

theorem missing_field_raises_KeyError_witness:
  "vasp_run_line ex_py ex_inputs_bad = Inl (KeyError ''nprocs'')"
proof -
  let ?jr = "\<lparr>items = [(''num_machines'', PyInt 2), (''num_mpiprocs_per_machine'', PyInt 4)],
             get_tot_num_mpiprocs = PyInt 8\<rparr>"
  have w: "withmpi_option (options ex_inputs_bad)"
    by (simp add: ex_inputs_bad_def ex_inputs_def ex_options_def)
  have c: "create_job_resource (computer (code ex_inputs_bad))
             (job_resource_kwargs (computer (code ex_inputs_bad))
                (resources (options ex_inputs_bad))) = Inr ?jr"
    by code_simp
  have m: "list_all bare (get_mpirun_command (computer (code ex_inputs_bad))) \<and>
           find (absent (mpi_arg_dict ?jr))
             (concat (map fields_of (get_mpirun_command (computer (code ex_inputs_bad)))))
             = Some ''nprocs'' \<and>
           ''nprocs'' \<noteq> [] \<and> get_integer ''nprocs'' = Inr None"
    by code_simp
  from missing_field_raises_KeyError [OF w c, where first = "''nprocs''" and py = ex_py] m
  show ?thesis by blast
qed

text \<open>
  The launcher command \<open>srun -n {nprocs}\<close> asks for a field that the job resource does
  not supply; the composition fails with a \<open>KeyError\<close> and no configuration error.
\<close>

theorem missing_field_counterexample:
  "withmpi_option (options ex_inputs_bad)
   \<and> get_mpirun_command (computer (code ex_inputs_bad)) = [''srun'', ''-n'', ''{nprocs}'']
   \<and> map_sum id (\<lambda>jr. absent (mpi_arg_dict jr) ''nprocs'')
        (create_job_resource (computer (code ex_inputs_bad))
           (job_resource_kwargs (computer (code ex_inputs_bad))
              (resources (options ex_inputs_bad)))) = Inr True
   \<and> vasp_run_line ex_py ex_inputs_bad = Inl (KeyError ''nprocs'')"
  by code_simp

text \<open>
  A positional field finds no positional argument, and a brace that is not closed is
  refused; a field that is there is replaced.
\<close>

lemma format_examples:
  "format ex_py ''-n {0}'' [''tot_num_mpiprocs'' \<mapsto> PyInt 8] = Inl IndexError
   \<and> format ex_py ''-n {}'' [''tot_num_mpiprocs'' \<mapsto> PyInt 8] = Inl IndexError
   \<and> format ex_py ''-n {tot_num_mpiprocs'' [''tot_num_mpiprocs'' \<mapsto> PyInt 8] = Inl ValueError
   \<and> format ex_py ''-n {{{tot_num_mpiprocs}}}'' [''tot_num_mpiprocs'' \<mapsto> PyInt 8] = Inr ''-n {8}''"
  by code_simp

section \<open>The remote copy list of a restart\<close>

lemma copy_loop_manifest:
  "copy_loop dflt u excl ow folder files ci fs = Inr (ci', fs') \<Longrightarrow>
   remote_copy_list ci' =
     remote_copy_list ci @
       map (\<lambda>(name, abspath, relpath).
              (u, abspath,
               relpath @ ''/'' @
                 (if name = FNAMES_contcar dflt \<and> truthy ow then FNAMES_poscar dflt else name)))
           (filter (\<lambda>(name, abspath, relpath). Some name \<notin> set excl) files)"
proof (induction files arbitrary: ci fs)
  case Nil
  then show ?case by simp
next
  case (Cons entry files)
  obtain name abspath relpath where e: "entry = (name, abspath, relpath)"
    by (cases entry) auto
  show ?case
  proof (cases "Some name \<in> set excl")
    case True
    with Cons.prems e have "copy_loop dflt u excl ow folder files ci fs = Inr (ci', fs')"
      by simp
    from Cons.IH [OF this] True e show ?thesis by simp
  next
    case False
    let ?ci = "ci\<lparr>remote_copy_list := remote_copy_list ci @
        [(u, abspath, relpath @ ''/'' @
            (if name = FNAMES_contcar dflt \<and> truthy ow then FNAMES_poscar dflt else name))]\<rparr>"
    from Cons.prems e False obtain fs1 where
      "copy_loop dflt u excl ow folder files ?ci fs1 = Inr (ci', fs')"
      by (auto simp: Let_def simp del: append.simps split: if_splits sum.splits)
    from Cons.IH [OF this] False e show ?thesis by simp
  qed
qed

lemma ex_restart_folder: "restart_folder ex_inputs = Some ex_remote"
  by (simp add: ex_inputs_def)

lemma ex_restart_run:
  obtains ci' fs' where
    "restart_copy_remote 5 ''/'' ex_defaults ex_inputs ''/sandbox'' ex_calcinfo ex_fs
       = Inr (ci', fs')"
proof -
  have "\<not> isl (restart_copy_remote 5 ''/'' ex_defaults ex_inputs ''/sandbox'' ex_calcinfo ex_fs)"
    by code_simp
  then show ?thesis
    using that
    by (cases "restart_copy_remote 5 ''/'' ex_defaults ex_inputs ''/sandbox'' ex_calcinfo ex_fs")
       auto
qed

text \<open>
  Claim C6. Each entry of the file list that is not excluded adds one entry to the remote
  copy list: the uuid of the remote computer, the absolute path of the file, and the
  relative directory of the entry joined by \<open>/\<close> with the file name, where the name
  \<open>FNAMES['contcar']\<close> is replaced by \<open>FNAMES['poscar']\<close> exactly when
  \<open>contcar_to_poscar\<close> is true, and every other name is kept.
\<close>

theorem rename_and_destination:
  assumes "restart_folder inp = Some rd"
    and "remote_filelist depth cwd rd ''.'' = Inr files"
    and "restart_copy_remote depth cwd dflt inp folder ci fs = Inr (ci', fs')"
  shows "remote_copy_list ci' =
     remote_copy_list ci @
       map (\<lambda>(name, abspath, relpath).
              (computer_uuid rd, abspath,
               relpath @ ''/'' @
                 (if name = FNAMES_contcar dflt \<and> contcar_to_poscar inp = Some True
                  then FNAMES_poscar dflt else name)))
           (filter (\<lambda>(name, abspath, relpath).
                      Some name \<notin> set (restart_files_exclude dflt inp)) files)"
proof -
  from assms have
    "copy_loop dflt (computer_uuid rd) (restart_files_exclude dflt inp) (contcar_to_poscar inp)
       folder files ci fs = Inr (ci', fs')"
    by (simp add: restart_copy_remote_def)
  from copy_loop_manifest [OF this] show ?thesis
    by (simp add: truthy_def)
qed

theorem rename_and_destination_witness:
  "map_sum id (remote_copy_list \<circ> fst)
     (restart_copy_remote 5 ''/'' ex_defaults ex_inputs ''/sandbox'' ex_calcinfo ex_fs) =
   Inr [(''comp-uuid'', ''/scratch/run1/a/CONTCAR'', ''a/POSCAR''),
        (''comp-uuid'', ''/scratch/run1/a/OUTCAR'', ''a/OUTCAR'')]"
proof -
  obtain ci' fs' where run:
    "restart_copy_remote 5 ''/'' ex_defaults ex_inputs ''/sandbox'' ex_calcinfo ex_fs
       = Inr (ci', fs')"
    by (rule ex_restart_run)
  from rename_and_destination [OF ex_restart_folder ex_files run]
  have "remote_copy_list ci' =
          [(''comp-uuid'', ''/scratch/run1/a/CONTCAR'', ''a/POSCAR''),
           (''comp-uuid'', ''/scratch/run1/a/OUTCAR'', ''a/OUTCAR'')]"
    by (simp add: ex_calcinfo_def ex_remote_def ex_defaults_def ex_inputs_def
          restart_files_exclude_def ex_options_def)
  with run show ?thesis by simp
qed

text \<open>
  Claim C7. The files the remote copy list names as sources are those entries of the
  traversal whose file name is none of the excluded names, wherever in the tree they
  lie: the test reads the file name alone and compares it by equality of strings.
\<close>

theorem excluded_names_absent:
  assumes "restart_folder inp = Some rd"
    and "remote_filelist depth cwd rd ''.'' = Inr files"
    and "restart_copy_remote depth cwd dflt inp folder ci fs = Inr (ci', fs')"
  shows "map (fst \<circ> snd) (drop (length (remote_copy_list ci)) (remote_copy_list ci')) =
           map (fst \<circ> snd)
             (filter (\<lambda>entry. fst entry \<notin>
                        {''job_tmpl.json'', ''calcinfo.json'', CSTDN_SPEC_FNAME dflt}
                        \<union> set_option (submit_script_filename (options inp)))
                files)"
proof -
  from assms have
    "copy_loop dflt (computer_uuid rd) (restart_files_exclude dflt inp) (contcar_to_poscar inp)
       folder files ci fs = Inr (ci', fs')"
    by (simp add: restart_copy_remote_def)
  from copy_loop_manifest [OF this]
  have "map (fst \<circ> snd) (drop (length (remote_copy_list ci)) (remote_copy_list ci')) =
          map (fst \<circ> snd)
            (filter (\<lambda>(name, abspath, relpath).
                       Some name \<notin> set (restart_files_exclude dflt inp)) files)"
    by (simp add: comp_def case_prod_unfold)
  also have "(\<lambda>(name, abspath, relpath).
                 Some name \<notin> set (restart_files_exclude dflt inp)) =
             (\<lambda>entry. fst entry \<notin>
                        {''job_tmpl.json'', ''calcinfo.json'', CSTDN_SPEC_FNAME dflt}
                        \<union> set_option (submit_script_filename (options inp)))"
    by (cases "submit_script_filename (options inp)")
       (auto simp: restart_files_exclude_def fun_eq_iff)
  finally show ?thesis .
qed

theorem excluded_names_absent_witness:
  "map_sum id (map (fst \<circ> snd) \<circ> remote_copy_list \<circ> fst)
     (restart_copy_remote 5 ''/'' ex_defaults ex_inputs ''/sandbox'' ex_calcinfo ex_fs) =
   Inr [''/scratch/run1/a/CONTCAR'', ''/scratch/run1/a/OUTCAR'']"
proof -
  obtain ci' fs' where run:
    "restart_copy_remote 5 ''/'' ex_defaults ex_inputs ''/sandbox'' ex_calcinfo ex_fs
       = Inr (ci', fs')"
    by (rule ex_restart_run)
  from excluded_names_absent [OF ex_restart_folder ex_files run]
  have "map (fst \<circ> snd) (remote_copy_list ci') =
          [''/scratch/run1/a/CONTCAR'', ''/scratch/run1/a/OUTCAR'']"
    by (simp add: ex_calcinfo_def ex_defaults_def ex_inputs_def ex_options_def)
  with run show ?thesis by simp
qed

section \<open>Directories in the sandbox folder\<close>

lemma only_adds_refl: "only_adds_directories fs fs"
  by (simp add: only_adds_directories_def)

lemma only_adds_trans:
  "only_adds_directories fs fs1 \<Longrightarrow> only_adds_directories fs1 fs2 \<Longrightarrow>
     only_adds_directories fs fs2"
  unfolding only_adds_directories_def by metis

lemma only_adds_Some:
  "only_adds_directories fs fs' \<Longrightarrow> fs q = Some k \<Longrightarrow> fs' q = Some k"
  unfolding only_adds_directories_def by (metis option.distinct(1))

lemma only_adds_RegularFile:
  "only_adds_directories fs fs' \<Longrightarrow> fs' q = Some RegularFile \<Longrightarrow> fs q = Some RegularFile"
  unfolding only_adds_directories_def by (metis kind.distinct(1) option.inject)

lemma stat_from_mono:
  "only_adds_directories fs fs' \<Longrightarrow> stat_from fs cur xs = Inr k \<Longrightarrow>
     stat_from fs' cur xs = Inr k"
proof (induction xs arbitrary: cur)
  case Nil
  then show ?case
    by (auto split: option.splits dest: only_adds_Some)
next
  case (Cons x xs)
  from Cons.prems(2) have d: "fs cur = Some Directory" and
    r: "stat_from fs (cur @ [x]) xs = Inr k"
    by (auto split: option.splits kind.splits)
  from only_adds_Some [OF Cons.prems(1) d] Cons.IH [OF Cons.prems(1) r]
  show ?case by simp
qed

lemma stat_from_snoc:
  "stat_from fs cur (xs @ [x]) =
     (case stat_from fs cur xs of
        Inl e \<Rightarrow> Inl e
      | Inr RegularFile \<Rightarrow> Inl ENOTDIR
      | Inr Directory \<Rightarrow>
          (case fs (cur @ xs @ [x]) of None \<Rightarrow> Inl ENOENT | Some k \<Rightarrow> Inr k))"
  by (induction xs arbitrary: cur) (auto split: option.splits kind.splits)

lemma stat_from_prefixes:
  "stat_from fs cur xs = Inr Directory \<Longrightarrow> i \<le> length xs \<Longrightarrow>
     fs (cur @ take i xs) = Some Directory"
proof (induction xs arbitrary: cur i)
  case Nil
  then show ?case by (auto split: option.splits)
next
  case (Cons x xs)
  from Cons.prems(1) have d: "fs cur = Some Directory" and
    r: "stat_from fs (cur @ [x]) xs = Inr Directory"
    by (auto split: option.splits kind.splits)
  show ?case
  proof (cases i)
    case 0
    with d show ?thesis by simp
  next
    case (Suc j)
    with Cons.prems(2) have "j \<le> length xs" by simp
    from Cons.IH [OF r this] Suc show ?thesis by simp
  qed
qed

lemma is_dir_prefixes:
  "is_dir fs p \<Longrightarrow> i \<le> length p \<Longrightarrow> fs (take i p) = Some Directory"
  unfolding is_dir_def os_stat_def
  using stat_from_prefixes [of fs "[]" p i] by simp

lemma is_dir_mono: "only_adds_directories fs fs' \<Longrightarrow> is_dir fs p \<Longrightarrow> is_dir fs' p"
  unfolding is_dir_def os_stat_def by (rule stat_from_mono)

lemma path_exists_mono:
  "only_adds_directories fs fs' \<Longrightarrow> path_exists fs p \<Longrightarrow> path_exists fs' p"
  unfolding path_exists_def os_stat_def
  by (auto split: sum.splits dest: stat_from_mono)

lemma is_dir_exists: "is_dir fs p \<Longrightarrow> path_exists fs p"
  by (simp add: is_dir_def path_exists_def)

lemma os_mkdir_Inr:
  assumes "os_mkdir fs p = Inr fs'"
  shows "only_adds_directories fs fs' \<and> is_dir fs' p"
proof -
  from assms have ne: "p \<noteq> []" and par: "os_stat fs (butlast p) = Inr Directory"
    and free: "fs p = None" and upd: "fs' = fs(p \<mapsto> Directory)"
    by (auto simp: os_mkdir_def split: if_splits sum.splits kind.splits option.splits)
  from free upd have oa: "only_adds_directories fs fs'"
    by (simp add: only_adds_directories_def)
  from par have "stat_from fs' [] (butlast p) = Inr Directory"
    unfolding os_stat_def by (rule stat_from_mono [OF oa])
  moreover from ne have "p = butlast p @ [last p]" by simp
  moreover from upd have "fs' p = Some Directory" by simp
  ultimately have "stat_from fs' [] p = Inr Directory"
    using stat_from_snoc [of fs' "[]" "butlast p" "last p"] by simp
  with oa show ?thesis by (simp add: is_dir_def os_stat_def)
qed

lemma mkdir_Inr:
  "mkdir fs p parents exist_ok = Inr fs' \<Longrightarrow> only_adds_directories fs fs' \<and> is_dir fs' p"
proof (induction fs p parents exist_ok arbitrary: fs' rule: mkdir.induct)
  case (1 fs p parents exist_ok)
  show ?case
  proof (cases "os_mkdir fs p")
    case (Inr fs1)
    with "1.prems" have "fs' = fs1" by (simp add: mkdir.simps)
    with Inr show ?thesis by (simp add: os_mkdir_Inr)
  next
    case (Inl e)
    show ?thesis
    proof (cases "e = ENOENT")
      case True
      with Inl "1.prems" have c: "\<not> (\<not> parents \<or> p = [])"
        by (auto simp: mkdir.simps [of fs p] split: if_splits)
      with Inl True "1.prems" obtain fs1 where
        m1: "mkdir fs (butlast p) True True = Inr fs1" and
        m2: "mkdir fs1 p False exist_ok = Inr fs'"
        by (auto simp: mkdir.simps [of fs p] split: if_splits sum.splits)
      from "1.IH"(1) [OF Inl True c m1] have a: "only_adds_directories fs fs1" by simp
      from "1.IH"(2) [OF Inl True c m1 m2] have b: "only_adds_directories fs1 fs'"
        and d: "is_dir fs' p" by simp_all
      from only_adds_trans [OF a b] d show ?thesis by simp
    next
      case False
      with Inl "1.prems" have "fs' = fs" and "is_dir fs p"
        by (auto simp: mkdir.simps [of fs p] split: if_splits)
      then show ?thesis by (simp add: only_adds_refl)
    qed
  qed
qed

lemma stat_from_lookup: "stat_from fs cur xs = Inr k \<Longrightarrow> fs (cur @ xs) = Some k"
proof (induction xs arbitrary: cur)
  case Nil
  then show ?case by (auto split: option.splits)
next
  case (Cons x xs)
  from Cons.prems have "stat_from fs (cur @ [x]) xs = Inr k"
    by (auto split: option.splits kind.splits)
  from Cons.IH [OF this] show ?case by simp
qed

lemma path_exists_cases:
  "path_exists fs p \<Longrightarrow> is_dir fs p \<or> fs p = Some RegularFile"
proof -
  assume "path_exists fs p"
  then obtain k where k: "stat_from fs [] p = Inr k"
    by (auto simp: path_exists_def os_stat_def split: sum.splits)
  show ?thesis
  proof (cases k)
    case RegularFile
    with k stat_from_lookup [of fs "[]" p k] show ?thesis by simp
  next
    case Directory
    with k show ?thesis by (simp add: is_dir_def os_stat_def)
  qed
qed

lemma copy_loop_step:
  assumes "copy_loop dflt u excl ow folder ((name, abspath, relpath) # files) ci fs
             = Inr (ci', fs')"
    and "Some name \<notin> set excl"
  obtains ci1 fs1 where
    "copy_loop dflt u excl ow folder files ci1 fs1 = Inr (ci', fs')"
    "only_adds_directories fs fs1"
    "path_exists fs1 (snd (truediv (Path folder) (Path relpath)))"
    "is_dir fs1 (snd (truediv (Path folder) (Path relpath)))
       \<or> fs (snd (truediv (Path folder) (Path relpath))) = Some RegularFile"
proof (cases "path_exists fs (snd (truediv (Path folder) (Path relpath)))")
  case True
  with assms obtain ci1 where
    "copy_loop dflt u excl ow folder files ci1 fs = Inr (ci', fs')"
    by (auto simp: Let_def simp del: append.simps)
  with True path_exists_cases [OF True] that show ?thesis
    by (blast intro: only_adds_refl)
next
  case False
  with assms obtain ci1 fs1 where
    m: "mkdir fs (snd (truediv (Path folder) (Path relpath))) True False = Inr fs1" and
    c: "copy_loop dflt u excl ow folder files ci1 fs1 = Inr (ci', fs')"
    by (auto simp: Let_def simp del: append.simps split: sum.splits)
  from mkdir_Inr [OF m] c that show ?thesis
    by (blast intro: is_dir_exists)
qed

lemma copy_loop_only_adds:
  "copy_loop dflt u excl ow folder files ci fs = Inr (ci', fs') \<Longrightarrow>
     only_adds_directories fs fs'"
proof (induction files arbitrary: ci fs)
  case Nil
  then show ?case by (simp add: only_adds_refl)
next
  case (Cons entry files)
  obtain name abspath relpath where e: "entry = (name, abspath, relpath)"
    by (cases entry) auto
  show ?case
  proof (cases "Some name \<in> set excl")
    case True
    with Cons.prems e have "copy_loop dflt u excl ow folder files ci fs = Inr (ci', fs')"
      by simp
    then show ?thesis by (rule Cons.IH)
  next
    case False
    from Cons.prems [unfolded e] False obtain ci1 fs1 where
      "copy_loop dflt u excl ow folder files ci1 fs1 = Inr (ci', fs')"
      "only_adds_directories fs fs1"
      by (rule copy_loop_step)
    with Cons.IH show ?thesis by (blast intro: only_adds_trans)
  qed
qed

lemma copy_loop_directories:
  assumes "copy_loop dflt u excl ow folder files ci fs = Inr (ci', fs')"
    and "(name, abspath, relpath) \<in> set files" and "Some name \<notin> set excl"
  shows "path_exists fs' (snd (truediv (Path folder) (Path relpath)))
         \<and> (is_dir fs' (snd (truediv (Path folder) (Path relpath)))
              \<or> fs (snd (truediv (Path folder) (Path relpath))) = Some RegularFile)"
  using assms(1,2)
proof (induction files arbitrary: ci fs)
  case Nil
  then show ?case by simp
next
  case (Cons entry files)
  obtain name' abspath' relpath' where e: "entry = (name', abspath', relpath')"
    by (cases entry) auto
  let ?t = "snd (truediv (Path folder) (Path relpath))"
  show ?case
  proof (cases "Some name' \<in> set excl")
    case True
    with Cons.prems e have c: "copy_loop dflt u excl ow folder files ci fs = Inr (ci', fs')"
      by simp
    from True assms(3) e Cons.prems(2) have "(name, abspath, relpath) \<in> set files"
      by auto
    from Cons.IH [OF c this] show ?thesis .
  next
    case False
    from Cons.prems(1) [unfolded e] False obtain ci1 fs1 where
      c: "copy_loop dflt u excl ow folder files ci1 fs1 = Inr (ci', fs')" and
      g: "only_adds_directories fs fs1" and
      x: "path_exists fs1 (snd (truediv (Path folder) (Path relpath')))" and
      d: "is_dir fs1 (snd (truediv (Path folder) (Path relpath')))
            \<or> fs (snd (truediv (Path folder) (Path relpath'))) = Some RegularFile"
      by (rule copy_loop_step)
    have g': "only_adds_directories fs1 fs'"
      using c by (rule copy_loop_only_adds)
    show ?thesis
    proof (cases "(name, abspath, relpath) \<in> set files")
      case True
      from Cons.IH [OF c True] have "path_exists fs' ?t"
        and "is_dir fs' ?t \<or> fs1 ?t = Some RegularFile" by simp_all
      with g show ?thesis by (blast dest: only_adds_RegularFile)
    next
      case False
      with Cons.prems(2) e have "relpath' = relpath" by simp
      with x d g' show ?thesis
        by (blast intro: path_exists_mono is_dir_mono)
    qed
  qed
qed

lemma copy_loop_nothing_to_create:
  assumes "\<And>name abspath relpath.
             (name, abspath, relpath) \<in> set files \<Longrightarrow> Some name \<notin> set excl \<Longrightarrow>
               path_exists fs (snd (truediv (Path folder) (Path relpath)))"
  shows "\<exists>ci'. copy_loop dflt u excl ow folder files ci fs = Inr (ci', fs)"
  using assms
proof (induction files arbitrary: ci)
  case Nil
  show ?case by simp
next
  case (Cons entry files)
  obtain name abspath relpath where e: "entry = (name, abspath, relpath)"
    by (cases entry) auto
  have rest: "\<exists>ci'. copy_loop dflt u excl ow folder files ci1 fs = Inr (ci', fs)" for ci1
    by (rule Cons.IH) (auto intro: Cons.prems)
  show ?case
  proof (cases "Some name \<in> set excl")
    case True
    with e rest show ?thesis by simp
  next
    case False
    with e Cons.prems [of name abspath relpath]
    have "path_exists fs (snd (truediv (Path folder) (Path relpath)))" by simp
    with e False rest show ?thesis
      by (simp add: Let_def del: append.simps)
  qed
qed

lemma well_formed_stat:
  "well_formed fs \<Longrightarrow> fs p = Some k \<Longrightarrow> os_stat fs p = Inr k"
proof (induction p arbitrary: k rule: rev_induct)
  case Nil
  then show ?case by (simp add: os_stat_def)
next
  case (snoc x q)
  from snoc.prems have "fs (butlast (q @ [x])) = Some Directory"
    unfolding well_formed_def by blast
  then have "fs q = Some Directory" by simp
  from snoc.IH [OF snoc.prems(1) this] have "stat_from fs [] q = Inr Directory"
    by (simp add: os_stat_def)
  with snoc.prems(2) show ?case
    by (simp add: os_stat_def stat_from_snoc)
qed

lemma stat_from_error:
  "stat_from fs cur xs = Inl e \<Longrightarrow>
     e = ENOENT \<or> (\<exists>i \<le> length xs. fs (cur @ take i xs) = Some RegularFile)"
proof (induction xs arbitrary: cur)
  case Nil
  then show ?case by (auto split: option.splits)
next
  case (Cons x xs)
  show ?case
  proof (cases "fs cur")
    case None
    with Cons.prems show ?thesis by simp
  next
    case (Some k)
    show ?thesis
    proof (cases k)
      case RegularFile
      with Some have "fs (cur @ take 0 (x # xs)) = Some RegularFile" by simp
      then show ?thesis by blast
    next
      case Directory
      with Some Cons.prems have "stat_from fs (cur @ [x]) xs = Inl e" by simp
      from Cons.IH [OF this] show ?thesis
      proof
        assume "e = ENOENT"
        then show ?thesis by simp
      next
        assume "\<exists>i \<le> length xs. fs ((cur @ [x]) @ take i xs) = Some RegularFile"
        then obtain i where "i \<le> length xs" "fs (cur @ take (Suc i) (x # xs)) = Some RegularFile"
          by auto
        then have "Suc i \<le> length (x # xs) \<and> fs (cur @ take (Suc i) (x # xs)) = Some RegularFile"
          by simp
        then show ?thesis by blast
      qed
    qed
  qed
qed

lemma no_file_stat_error:
  assumes "no_file_on_path fs p" and "j \<le> length p" and "os_stat fs (take j p) = Inl e"
  shows "e = ENOENT"
proof -
  from stat_from_error [of fs "[]" "take j p" e] assms(3)
  have "e = ENOENT \<or> (\<exists>i \<le> length (take j p). fs (take i (take j p)) = Some RegularFile)"
    by (simp add: os_stat_def)
  moreover have "fs (take i (take j p)) \<noteq> Some RegularFile" if "i \<le> length (take j p)" for i
  proof -
    from that assms(2) have ij: "i \<le> j" and "i \<le> length p"
      by simp_all
    moreover from ij have "take i (take j p) = take i p"
      by (simp add: min.absorb1)
    ultimately have "take i (take j p) = take i p" "i \<le> length p"
      by simp_all
    with assms(1) show ?thesis by (simp add: no_file_on_path_def)
  qed
  ultimately show ?thesis by blast
qed

lemma no_file_on_prefix:
  "no_file_on_path fs (q @ [x]) \<Longrightarrow> no_file_on_path fs q"
  unfolding no_file_on_path_def
proof (intro allI impI)
  fix i
  assume a: "\<forall>i \<le> length (q @ [x]). fs (take i (q @ [x])) \<noteq> Some RegularFile"
    and i: "i \<le> length q"
  from i have "i \<le> length (q @ [x])" by simp
  with a have "fs (take i (q @ [x])) \<noteq> Some RegularFile" by blast
  with i show "fs (take i q) \<noteq> Some RegularFile" by simp
qed

lemma no_file_mono:
  "only_adds_directories fs fs' \<Longrightarrow> no_file_on_path fs p \<Longrightarrow> no_file_on_path fs' p"
  unfolding no_file_on_path_def by (blast dest: only_adds_RegularFile)

lemma well_formed_update:
  assumes "well_formed fs" and "fs q = Some Directory"
  shows "well_formed (fs(q @ [x] \<mapsto> Directory))"
  using assms unfolding well_formed_def
  by (auto simp: butlast_append split: if_splits)


lemma mkdir_parents_succeeds:
  assumes "well_formed fs" and "no_file_on_path fs p" and "exist_ok \<or> fs p = None"
  shows "\<exists>fs'. mkdir fs p True exist_ok = Inr fs' \<and> well_formed fs' \<and>
               (\<forall>r. fs' r \<noteq> fs r \<longrightarrow> (\<exists>i \<le> length p. r = take i p))"
  using assms
proof (induction p arbitrary: fs exist_ok rule: rev_induct)
  case Nil
  from Nil.prems(1) have root: "fs [] = Some Directory"
    by (simp add: well_formed_def)
  with Nil.prems(3) have ok: exist_ok by simp
  from well_formed_stat [OF Nil.prems(1) root] have "is_dir fs []"
    by (simp add: is_dir_def)
  with ok have "mkdir fs [] True exist_ok = Inr fs"
    by (simp add: mkdir.simps [of fs "[]"] os_mkdir_def)
  with Nil.prems(1) show ?case by simp
next
  case (snoc x q)
  let ?p = "q @ [x]"
  have nq: "no_file_on_path fs q"
    using snoc.prems(2) by (rule no_file_on_prefix)
  show ?case
  proof (cases "os_stat fs q")
    case (Inl e)
    have "os_stat fs (take (length q) ?p) = Inl e" using Inl by simp
    with snoc.prems(2) have e: "e = ENOENT"
      by (intro no_file_stat_error [of fs ?p "length q"]) simp_all
    have free: "fs ?p = None"
    proof (rule ccontr)
      assume "fs ?p \<noteq> None"
      with snoc.prems(1) have "fs (butlast ?p) = Some Directory"
        unfolding well_formed_def by blast
      then have "os_stat fs q = Inr Directory"
        using well_formed_stat [OF snoc.prems(1), of q Directory] by simp
      with Inl show False by simp
    qed
    from snoc.IH [OF snoc.prems(1) nq, of True] obtain fs1 where
      m1: "mkdir fs q True True = Inr fs1" and w1: "well_formed fs1" and
      ch: "\<forall>r. fs1 r \<noteq> fs r \<longrightarrow> (\<exists>i \<le> length q. r = take i q)"
      by auto
    from mkdir_Inr [OF m1] have d1: "is_dir fs1 q" by simp
    then have s1: "os_stat fs1 q = Inr Directory" by (simp add: is_dir_def)
    then have l1: "fs1 q = Some Directory"
      using stat_from_lookup [of fs1 "[]" q Directory] by (simp add: os_stat_def)
    have "fs1 ?p = fs ?p"
    proof (rule ccontr)
      assume "fs1 ?p \<noteq> fs ?p"
      with ch obtain i where "i \<le> length q" "?p = take i q" by blast
      then have "length ?p \<le> length q" by (metis length_take min.cobounded1)
      then show False by simp
    qed
    with free have f1: "fs1 ?p = None" by simp
    from s1 f1 have "os_mkdir fs1 ?p = Inr (fs1(?p \<mapsto> Directory))"
      by (simp add: os_mkdir_def)
    then have m2: "mkdir fs1 ?p False exist_ok = Inr (fs1(?p \<mapsto> Directory))"
      by (simp add: mkdir.simps [of fs1 ?p])
    from Inl e have "os_mkdir fs ?p = Inl ENOENT"
      by (simp add: os_mkdir_def)
    with m1 m2 have m: "mkdir fs ?p True exist_ok = Inr (fs1(?p \<mapsto> Directory))"
      by (simp add: mkdir.simps [of fs ?p])
    have w: "well_formed (fs1(?p \<mapsto> Directory))"
      using w1 l1 by (rule well_formed_update)
    have c: "\<exists>i \<le> length ?p. r = take i ?p" if "(fs1(?p \<mapsto> Directory)) r \<noteq> fs r" for r
    proof (cases "r = ?p")
      case True
      then have "r = take (length ?p) ?p" by simp
      then show ?thesis by blast
    next
      case False
      with that have "fs1 r \<noteq> fs r" by simp
      with ch obtain i where "i \<le> length q" "r = take i q" by blast
      then have "i \<le> length ?p \<and> r = take i ?p" by simp
      then show ?thesis by blast
    qed
    from m w c show ?thesis by blast
  next
    case (Inr k)
    then have lq: "fs q = Some k"
      using stat_from_lookup [of fs "[]" q k] by (simp add: os_stat_def)
    from nq have "fs (take (length q) q) \<noteq> Some RegularFile"
      unfolding no_file_on_path_def by blast
    with lq have k: "k = Directory" by (cases k) auto
    show ?thesis
    proof (cases "fs ?p")
      case None
      with Inr k have "os_mkdir fs ?p = Inr (fs(?p \<mapsto> Directory))"
        by (simp add: os_mkdir_def)
      then have m: "mkdir fs ?p True exist_ok = Inr (fs(?p \<mapsto> Directory))"
        by (simp add: mkdir.simps [of fs ?p])
      have w: "well_formed (fs(?p \<mapsto> Directory))"
        using snoc.prems(1) lq [unfolded k] by (rule well_formed_update)
      have c: "\<exists>i \<le> length ?p. r = take i ?p" if "(fs(?p \<mapsto> Directory)) r \<noteq> fs r" for r
      proof -
        from that have "r = ?p" by (auto split: if_splits)
        then have "r = take (length ?p) ?p" by simp
        then show ?thesis by blast
      qed
      from m w c show ?thesis by blast
    next
      case (Some k')
      from snoc.prems(2) have "fs (take (length ?p) ?p) \<noteq> Some RegularFile"
        unfolding no_file_on_path_def by blast
      with Some have "k' = Directory" by (cases k') auto
      with Some well_formed_stat [OF snoc.prems(1), of ?p Directory] have d: "is_dir fs ?p"
        by (simp add: is_dir_def)
      from Some snoc.prems(3) have ok: exist_ok by simp
      from Inr k Some have "os_mkdir fs ?p = Inl EEXIST"
        by (simp add: os_mkdir_def)
      with ok d have "mkdir fs ?p True exist_ok = Inr fs"
        by (simp add: mkdir.simps [of fs ?p])
      with snoc.prems(1) show ?thesis by simp
    qed
  qed
qed


lemma copy_loop_succeeds:
  assumes "well_formed fs"
    and "\<And>name abspath relpath.
           (name, abspath, relpath) \<in> set files \<Longrightarrow> Some name \<notin> set excl \<Longrightarrow>
             no_file_on_path fs (snd (truediv (Path folder) (Path relpath)))"
  shows "\<exists>ci' fs'. copy_loop dflt u excl ow folder files ci fs = Inr (ci', fs')"
  using assms
proof (induction files arbitrary: ci fs)
  case Nil
  show ?case by simp
next
  case (Cons entry files)
  obtain name abspath relpath where e: "entry = (name, abspath, relpath)"
    by (cases entry) auto
  let ?t = "snd (truediv (Path folder) (Path relpath))"
  have rest: "\<exists>ci' fs'. copy_loop dflt u excl ow folder files ci1 fs1 = Inr (ci', fs')"
    if "well_formed fs1" "only_adds_directories fs fs1" for ci1 fs1
  proof (rule Cons.IH [OF that(1)])
    fix name' abspath' relpath'
    assume "(name', abspath', relpath') \<in> set files" "Some name' \<notin> set excl"
    then have "no_file_on_path fs (snd (truediv (Path folder) (Path relpath')))"
      using Cons.prems(2) [of name' abspath' relpath'] by simp
    with that(2) show "no_file_on_path fs1 (snd (truediv (Path folder) (Path relpath')))"
      by (rule no_file_mono)
  qed
  show ?case
  proof (cases "Some name \<in> set excl")
    case True
    with e rest [OF Cons.prems(1) only_adds_refl] show ?thesis by simp
  next
    case False
    show ?thesis
    proof (cases "path_exists fs ?t")
      case True
      with e False rest [OF Cons.prems(1) only_adds_refl] show ?thesis
        by (simp add: Let_def del: append.simps)
    next
      case missing: False
      have free: "fs ?t = None"
      proof (rule ccontr)
        assume "fs ?t \<noteq> None"
        then obtain k where "fs ?t = Some k" by auto
        with Cons.prems(1) have "os_stat fs ?t = Inr k" by (rule well_formed_stat)
        with missing show False by (simp add: path_exists_def)
      qed
      have "no_file_on_path fs ?t"
        using e False Cons.prems(2) [of name abspath relpath] by simp
      with Cons.prems(1) free obtain fs1 where
        m: "mkdir fs ?t True False = Inr fs1" and w: "well_formed fs1"
        using mkdir_parents_succeeds [of fs ?t False] by auto
      from mkdir_Inr [OF m] have "only_adds_directories fs fs1" by simp
      with w have "\<exists>ci' fs'. copy_loop dflt u excl ow folder files ci1 fs1 = Inr (ci', fs')"
        for ci1 by (rule rest)
      with e False missing m show ?thesis
        by (simp add: Let_def del: append.simps)
    qed
  qed
qed

text \<open>
  Claim C8. Let the sandbox folder lie in a local file system that is a tree, with no
  regular file at the place of a directory of the restart folder or on the way to it.
  Then \<open>restart_copy_remote\<close> completes; afterwards the directory of every entry it
  copied is a directory of the sandbox folder, and so is every segment on the way to
  it; and running the copy again on the resulting file system, where all these
  directories exist, raises nothing and changes nothing.
\<close>

theorem parent_directories_created:
  assumes "restart_folder inp = Some rd"
    and "remote_filelist depth cwd rd ''.'' = Inr files"
    and "well_formed fs"
    and "\<forall>(name, abspath, relpath) \<in> set files.
           Some name \<notin> set (restart_files_exclude dflt inp) \<longrightarrow>
             no_file_on_path fs (snd (truediv (Path folder) (Path relpath)))"
  shows "\<exists>ci' fs'.
           restart_copy_remote depth cwd dflt inp folder ci fs = Inr (ci', fs')
           \<and> (\<forall>(name, abspath, relpath) \<in> set files.
                 Some name \<notin> set (restart_files_exclude dflt inp) \<longrightarrow>
                   is_dir fs' (snd (truediv (Path folder) (Path relpath)))
                   \<and> (\<forall>i \<le> length (snd (truediv (Path folder) (Path relpath))).
                         fs' (take i (snd (truediv (Path folder) (Path relpath))))
                           = Some Directory))
           \<and> (\<exists>ci''. restart_copy_remote depth cwd dflt inp folder ci fs' = Inr (ci'', fs'))"
proof -
  let ?u = "computer_uuid rd" and ?x = "restart_files_exclude dflt inp"
  let ?ow = "contcar_to_poscar inp"
  have clear: "no_file_on_path fs (snd (truediv (Path folder) (Path relpath)))"
    if "(name, abspath, relpath) \<in> set files" "Some name \<notin> set ?x"
    for name abspath relpath
    using assms(4) that by auto
  from assms(3) clear obtain ci' fs' where
    c: "copy_loop dflt ?u ?x ?ow folder files ci fs = Inr (ci', fs')"
    using copy_loop_succeeds [of fs files ?x folder dflt ?u ?ow ci] by blast
  with assms(1,2) have run:
    "restart_copy_remote depth cwd dflt inp folder ci fs = Inr (ci', fs')"
    by (simp add: restart_copy_remote_def)
  have dirs: "is_dir fs' (snd (truediv (Path folder) (Path relpath)))"
    if "(name, abspath, relpath) \<in> set files" "Some name \<notin> set ?x"
    for name abspath relpath
  proof -
    let ?t = "snd (truediv (Path folder) (Path relpath))"
    from c that have "is_dir fs' ?t \<or> fs ?t = Some RegularFile"
      by (simp add: copy_loop_directories)
    moreover from clear [OF that] have "fs (take (length ?t) ?t) \<noteq> Some RegularFile"
      unfolding no_file_on_path_def by blast
    ultimately show ?thesis by simp
  qed
  have "\<exists>ci''. copy_loop dflt ?u ?x ?ow folder files ci fs' = Inr (ci'', fs')"
    by (rule copy_loop_nothing_to_create) (simp add: dirs is_dir_exists)
  with assms(1,2) have again:
    "\<exists>ci''. restart_copy_remote depth cwd dflt inp folder ci fs' = Inr (ci'', fs')"
    by (simp add: restart_copy_remote_def)
  from dirs have all:
    "\<forall>(name, abspath, relpath) \<in> set files. Some name \<notin> set ?x \<longrightarrow>
       is_dir fs' (snd (truediv (Path folder) (Path relpath)))
       \<and> (\<forall>i \<le> length (snd (truediv (Path folder) (Path relpath))).
             fs' (take i (snd (truediv (Path folder) (Path relpath)))) = Some Directory)"
    by (auto dest: is_dir_prefixes)
  from run all again show ?thesis by blast
qed

lemma ex_fs_well_formed: "well_formed ex_fs"
  by (auto simp: well_formed_def ex_fs_def split: if_splits)

lemma ex_files_deep:
  "remote_filelist 5 ''/'' ex_remote_deep ''.'' =
     Inr [(''WAVECAR'', ''/scratch/run1/a/b/WAVECAR'', ''a/b'')]"
  by code_simp

lemma ex_target_deep:
  "snd (truediv (Path ''/sandbox'') (Path ''a/b'')) = [''sandbox'', ''a'', ''b'']"
  by code_simp


theorem parent_directories_created_witness:
  "map_sum id (\<lambda>r. (is_dir (snd r) [''sandbox'', ''a'', ''b''], snd r [''sandbox'', ''a'']))
     (restart_copy_remote 5 ''/'' ex_defaults ex_inputs_deep ''/sandbox'' ex_calcinfo ex_fs) =
   Inr (True, Some Directory)"
proof -
  have r: "restart_folder ex_inputs_deep = Some ex_remote_deep"
    by (simp add: ex_inputs_deep_def)
  have x: "Some ''WAVECAR'' \<notin> set (restart_files_exclude ex_defaults ex_inputs_deep)"
    by code_simp
  have n: "\<forall>(name, abspath, relpath) \<in> set [(''WAVECAR'', ''/scratch/run1/a/b/WAVECAR'', ''a/b'')].
             Some name \<notin> set (restart_files_exclude ex_defaults ex_inputs_deep) \<longrightarrow>
               no_file_on_path ex_fs (snd (truediv (Path ''/sandbox'') (Path relpath)))"
    by (simp add: ex_target_deep no_file_on_path_def ex_fs_def)
  from parent_directories_created [OF r ex_files_deep ex_fs_well_formed n]
  obtain ci' fs' where
    run: "restart_copy_remote 5 ''/'' ex_defaults ex_inputs_deep ''/sandbox'' ex_calcinfo ex_fs
            = Inr (ci', fs')" and
    dirs: "\<forall>(name, abspath, relpath) \<in> set [(''WAVECAR'', ''/scratch/run1/a/b/WAVECAR'', ''a/b'')].
             Some name \<notin> set (restart_files_exclude ex_defaults ex_inputs_deep) \<longrightarrow>
               is_dir fs' (snd (truediv (Path ''/sandbox'') (Path relpath)))
               \<and> (\<forall>i \<le> length (snd (truediv (Path ''/sandbox'') (Path relpath))).
                     fs' (take i (snd (truediv (Path ''/sandbox'') (Path relpath))))
                       = Some Directory)"
    by blast
  from dirs x have d: "is_dir fs' [''sandbox'', ''a'', ''b'']"
    and s: "\<forall>i \<le> length [''sandbox'', ''a'', ''b''].
              fs' (take i [''sandbox'', ''a'', ''b'']) = Some Directory"
    by (simp_all add: ex_target_deep)
  from s have "fs' (take 2 [''sandbox'', ''a'', ''b'']) = Some Directory"
    by (elim allE [of _ 2]) simp
  then have "fs' [''sandbox'', ''a''] = Some Directory" by simp
  with d run show ?thesis by simp
qed

end
